theory Spec2Isabelle
  imports Complex_Main "HOL-Library.AList"
begin

text \<open>
  A model of \<open>src/utils.py\<close> of the repository \<open>roman_amphorae\<close>: the derived-column
  calculator \<open>dens_per_year\<close>, the three yearly aggregators \<open>year_freq_series\<close>,
  \<open>year_site_count_series\<close> and \<open>year_type_count_series\<close>, and \<open>create_series\<close>.
  Every function returns either the exception it raises (\<open>Inl\<close>) or its result
  (\<open>Inr\<close>); a function that receives a table receives a reference into a store of
  tables and returns the store it leaves behind. The plotting wrapper \<open>plot_graph\<close> is
  left out. Dates are assumed to lie within the
  range of 64-bit integers, where \<open>int(x)\<close> and \<open>astype(int)\<close> agree.
\<close>

section \<open>Values\<close>

text \<open>
  The numeric columns of the record table are pandas \<open>float64\<close> columns: a cell is a
  finite number, an infinity, or NaN, and NaN is what pandas reads as a null cell.
  Finite values are kept as rationals; rounding and the sign of zero are not modelled.
\<close>

datatype fval = Finite rat | PosInf | NegInf | NaN

fun is_finite :: "fval \<Rightarrow> bool" where
  "is_finite (Finite q) = True"
| "is_finite x = False"

text \<open>\<open>a == b\<close> on floats: NaN equals nothing, itself included.\<close>

definition feq :: "fval \<Rightarrow> fval \<Rightarrow> bool" where
  "feq a b = (a \<noteq> NaN \<and> a = b)"

fun fneg :: "fval \<Rightarrow> fval" where
  "fneg (Finite q) = Finite (- q)"
| "fneg PosInf = NegInf"
| "fneg NegInf = PosInf"
| "fneg NaN = NaN"

fun fadd :: "fval \<Rightarrow> fval \<Rightarrow> fval" where
  "fadd NaN y = NaN"
| "fadd x NaN = NaN"
| "fadd (Finite a) (Finite b) = Finite (a + b)"
| "fadd (Finite a) y = y"
| "fadd x (Finite b) = x"
| "fadd PosInf PosInf = PosInf"
| "fadd NegInf NegInf = NegInf"
| "fadd PosInf NegInf = NaN"
| "fadd NegInf PosInf = NaN"

definition fsub :: "fval \<Rightarrow> fval \<Rightarrow> fval" where
  "fsub x y = fadd x (fneg y)"

text \<open>
  numpy's true division: a zero divisor gives an infinity (NaN for \<open>0 / 0\<close>) and
  never raises.
\<close>

fun fdiv :: "fval \<Rightarrow> fval \<Rightarrow> fval" where
  "fdiv NaN y = NaN"
| "fdiv x NaN = NaN"
| "fdiv (Finite a) (Finite b) =
     (if b = 0 then (if a = 0 then NaN else if 0 < a then PosInf else NegInf)
      else Finite (a / b))"
| "fdiv (Finite a) y = Finite 0"
| "fdiv PosInf (Finite b) = (if 0 \<le> b then PosInf else NegInf)"
| "fdiv NegInf (Finite b) = (if 0 \<le> b then NegInf else PosInf)"
| "fdiv x y = NaN"

text \<open>The order of the non-NaN floats, as \<open>min\<close> and \<open>max\<close> use it.\<close>

fun fle :: "fval \<Rightarrow> fval \<Rightarrow> bool" where
  "fle NegInf y = True"
| "fle x PosInf = True"
| "fle (Finite a) (Finite b) = (a \<le> b)"
| "fle x y = False"

definition fmin :: "fval \<Rightarrow> fval \<Rightarrow> fval" where
  "fmin a b = (if fle a b then a else b)"

definition fmax :: "fval \<Rightarrow> fval \<Rightarrow> fval" where
  "fmax a b = (if fle a b then b else a)"

text \<open>
  \<open>Series.min()\<close> and \<open>Series.max()\<close> skip NaN; with no value left they return NaN.
\<close>

definition nanmin :: "fval list \<Rightarrow> fval" where
  "nanmin xs = (case filter (\<lambda>x. x \<noteq> NaN) xs of [] \<Rightarrow> NaN | y # ys \<Rightarrow> fold fmin ys y)"

definition nanmax :: "fval list \<Rightarrow> fval" where
  "nanmax xs = (case filter (\<lambda>x. x \<noteq> NaN) xs of [] \<Rightarrow> NaN | y # ys \<Rightarrow> fold fmax ys y)"

text \<open>
  Python's \<open>int(x)\<close> and numpy's \<open>astype(int)\<close> on a finite float drop the fraction:
  they round towards zero.
\<close>

definition trunc :: "rat \<Rightarrow> int" where
  "trunc q = (if 0 \<le> q then \<lfloor>q\<rfloor> else \<lceil>q\<rceil>)"

datatype key = ColumnKey string | YearKey int

datatype py_error = KeyError key | ValueError | OverflowError | TypeError | IndexError

text \<open>\<open>int(x)\<close>: ValueError on NaN, OverflowError on an infinity.\<close>

fun py_int :: "fval \<Rightarrow> py_error + int" where
  "py_int (Finite q) = Inr (trunc q)"
| "py_int NaN = Inl ValueError"
| "py_int x = Inl OverflowError"

section \<open>Record tables\<close>

text \<open>
  A table is kept row by row, in order. \<open>dtypes\<close> lists the columns that exist, in
  order, each a \<open>float64\<close> column or an object column whose cells are lists of site
  identifiers. A row gives each column name its cell; a cell is only ever read through
  a column that exists, by \<open>getitem\<close>.
\<close>

datatype dtype = Float64 | Object

record row =
  num :: "string \<Rightarrow> fval"
  obj :: "string \<Rightarrow> string list"

record frame =
  dtypes :: "(string \<times> dtype) list"
  rows :: "row list"

text \<open>A column taken out of a table (a pandas Series), and one cell of it.\<close>

datatype column = FloatCol "fval list" | ObjCol "string list list"

datatype scalar = Float fval | PyList "string list"

text \<open>\<open>data[c]\<close>: KeyError when the table has no column \<open>c\<close>.\<close>

definition getitem :: "frame \<Rightarrow> string \<Rightarrow> py_error + column" where
  "getitem f c =
     (case map_of (dtypes f) c of
        None \<Rightarrow> Inl (KeyError (ColumnKey c))
      | Some Float64 \<Rightarrow> Inr (FloatCol (map (\<lambda>r. num r c) (rows f)))
      | Some Object \<Rightarrow> Inr (ObjCol (map (\<lambda>r. obj r c) (rows f))))"

fun cells :: "column \<Rightarrow> scalar list" where
  "cells (FloatCol xs) = map Float xs"
| "cells (ObjCol xs) = map PyList xs"

text \<open>\<open>s.iloc[i]\<close>: IndexError out of range.\<close>

definition iloc :: "'a list \<Rightarrow> nat \<Rightarrow> py_error + 'a" where
  "iloc xs i = (if i < length xs then Inr (xs ! i) else Inl IndexError)"

text \<open>
  \<open>s.min()\<close>, \<open>s.max()\<close>. Over an object column of lists the result is not a number
  and the run ends in a TypeError; the model raises it here.
\<close>

fun series_min :: "column \<Rightarrow> py_error + fval" where
  "series_min (FloatCol xs) = Inr (nanmin xs)"
| "series_min (ObjCol xs) = (if xs = [] then Inr NaN else Inl TypeError)"

fun series_max :: "column \<Rightarrow> py_error + fval" where
  "series_max (FloatCol xs) = Inr (nanmax xs)"
| "series_max (ObjCol xs) = (if xs = [] then Inr NaN else Inl TypeError)"

text \<open>
  \<open>s.astype(int)\<close> converts the whole column: pandas refuses a column holding NaN or an
  infinity with a ValueError, and a list is not a number.
\<close>

fun cast_int :: "fval \<Rightarrow> int" where
  "cast_int (Finite q) = trunc q"
| "cast_int x = 0"

fun astype_int :: "column \<Rightarrow> py_error + int list" where
  "astype_int (FloatCol xs) =
     (if list_all is_finite xs then Inr (map cast_int xs) else Inl ValueError)"
| "astype_int (ObjCol xs) = (if xs = [] then Inr [] else Inl TypeError)"

text \<open>
  Arithmetic of two columns of one table, cell by cell. A list cell raises TypeError;
  with no rows there is no cell to raise.
\<close>

fun series_sub :: "column \<Rightarrow> column \<Rightarrow> py_error + column" where
  "series_sub (FloatCol xs) (FloatCol ys) = Inr (FloatCol (map2 fsub xs ys))"
| "series_sub a b = (if cells a = [] \<and> cells b = [] then Inr (ObjCol []) else Inl TypeError)"

fun series_div :: "column \<Rightarrow> column \<Rightarrow> py_error + column" where
  "series_div (FloatCol xs) (FloatCol ys) = Inr (FloatCol (map2 fdiv xs ys))"
| "series_div a b = (if cells a = [] \<and> cells b = [] then Inr (ObjCol []) else Inl TypeError)"

text \<open>
  \<open>data[c] = s\<close>, for a column \<open>s\<close> computed from the same table: the column \<open>c\<close> is
  replaced where it stands, or appended as the last column.
\<close>

fun set_cell :: "string \<Rightarrow> row \<Rightarrow> scalar \<Rightarrow> row" where
  "set_cell c r (Float x) = r\<lparr>num := (num r)(c := x)\<rparr>"
| "set_cell c r (PyList l) = r\<lparr>obj := (obj r)(c := l)\<rparr>"

fun dtype_of :: "column \<Rightarrow> dtype" where
  "dtype_of (FloatCol xs) = Float64"
| "dtype_of (ObjCol xs) = Object"

definition setitem :: "frame \<Rightarrow> string \<Rightarrow> column \<Rightarrow> frame" where
  "setitem f c s =
     \<lparr>dtypes = AList.update c (dtype_of s) (dtypes f),
      rows = map2 (set_cell c) (rows f) (cells s)\<rparr>"

section \<open>The store of tables\<close>

text \<open>
  Tables are objects: a function receives a reference to one. The store maps every
  reference handed out so far (those below \<open>fresh\<close>) to its table; \<open>dropna\<close> leaves its
  argument alone and returns a new table.
\<close>

record store =
  frames :: "nat \<Rightarrow> frame"
  fresh :: nat

definition alloc :: "store \<Rightarrow> frame \<Rightarrow> store \<times> nat" where
  "alloc st f = (st\<lparr>frames := (frames st)(fresh st := f), fresh := Suc (fresh st)\<rparr>, fresh st)"

text \<open>\<open>data.dropna(subset=[c])\<close>: the rows whose cell in column \<open>c\<close> is not null.\<close>

definition dropna :: "store \<Rightarrow> nat \<Rightarrow> string \<Rightarrow> py_error + store \<times> nat" where
  "dropna st data c =
     (let f = frames st data in
      case map_of (dtypes f) c of
        None \<Rightarrow> Inl (KeyError (ColumnKey c))
      | Some Float64 \<Rightarrow> Inr (alloc st (f\<lparr>rows := filter (\<lambda>r. num r c \<noteq> NaN) (rows f)\<rparr>))
      | Some Object \<Rightarrow> Inr (alloc st f))"

section \<open>Series and year bins\<close>

text \<open>
  A Python dict keeps its keys in insertion order, and \<open>pd.Series(dict)\<close> keeps that
  order as its index: both are lists of (year, value) pairs with each year once.
\<close>

record 'v series =
  series_items :: "(int \<times> 'v) list"
  series_name :: string
  series_index_name :: string

text \<open>\<open>create_series\<close>: the \<open>reset_index()\<close> of the source discards its result.\<close>

definition create_series :: "(int \<times> 'v) list \<Rightarrow> string \<Rightarrow> string \<Rightarrow> 'v series" where
  "create_series data name index_name =
     \<lparr>series_items = data, series_name = name, series_index_name = index_name\<rparr>"

text \<open>\<open>range(a, b)\<close> and \<open>dict.fromkeys(keys, v)\<close>.\<close>

definition py_range :: "int \<Rightarrow> int \<Rightarrow> int list" where
  "py_range a b = [a..b - 1]"

definition fromkeys :: "int list \<Rightarrow> 'v \<Rightarrow> (int \<times> 'v) list" where
  "fromkeys ks v = map (\<lambda>k. (k, v)) ks"

section \<open>The derived-column calculator\<close>

text \<open>
  \<open>data[output_column] = data[type_dens] / (data[upper_date] - data[lower_date])\<close>,
  operands read left to right; the table behind \<open>data\<close> is updated in place and the
  same reference is returned.
\<close>

definition dens_per_year ::
  "store \<Rightarrow> nat \<Rightarrow> string \<Rightarrow> string \<Rightarrow> string \<Rightarrow> string \<Rightarrow> py_error + store \<times> nat" where
  "dens_per_year st data type_dens lower_date upper_date output_column =
     (let f = frames st data in
      case getitem f type_dens of Inl e \<Rightarrow> Inl e | Inr q \<Rightarrow>
      (case getitem f upper_date of Inl e \<Rightarrow> Inl e | Inr u \<Rightarrow>
      (case getitem f lower_date of Inl e \<Rightarrow> Inl e | Inr l \<Rightarrow>
      (case series_sub u l of Inl e \<Rightarrow> Inl e | Inr d \<Rightarrow>
      (case series_div q d of Inl e \<Rightarrow> Inl e | Inr s \<Rightarrow>
        Inr (st\<lparr>frames := (frames st)(data := setitem f output_column s)\<rparr>, data))))))"

section \<open>The summed-rate aggregator\<close>

text \<open>\<open>date_dict[year] += v\<close> adds a cell to a float; a list cell raises TypeError.\<close>

fun iadd :: "fval \<Rightarrow> scalar \<Rightarrow> py_error + fval" where
  "iadd acc (Float v) = Inr (fadd acc v)"
| "iadd acc (PyList l) = Inl TypeError"

text \<open>
  The inner loop of \<open>year_freq_series\<close>, over the years of one row:
  \<open>date_dict[year] += df[dens_per_year].iloc[row]\<close> reads the bin first (KeyError on a
  year that is no key), then the cell.
\<close>

fun freq_years ::
  "frame \<Rightarrow> string \<Rightarrow> nat \<Rightarrow> (int \<times> fval) list \<Rightarrow> int list \<Rightarrow> py_error + (int \<times> fval) list" where
  "freq_years df dens row date_dict [] = Inr date_dict"
| "freq_years df dens row date_dict (year # ys) =
     (case map_of date_dict year of
        None \<Rightarrow> Inl (KeyError (YearKey year))
      | Some acc \<Rightarrow>
     (case getitem df dens of Inl e \<Rightarrow> Inl e | Inr col \<Rightarrow>
     (case iloc (cells col) row of Inl e \<Rightarrow> Inl e | Inr v \<Rightarrow>
     (case iadd acc v of Inl e \<Rightarrow> Inl e | Inr acc' \<Rightarrow>
       freq_years df dens row (AList.update year acc' date_dict) ys))))"

text \<open>\<open>df[c].astype(int).iloc[row]\<close>.\<close>

definition int_at :: "frame \<Rightarrow> string \<Rightarrow> nat \<Rightarrow> py_error + int" where
  "int_at df c row =
     (case getitem df c of Inl e \<Rightarrow> Inl e | Inr col \<Rightarrow>
      (case astype_int col of Inl e \<Rightarrow> Inl e | Inr xs \<Rightarrow> iloc xs row))"

text \<open>The outer loop, over the row numbers of \<open>df\<close>.\<close>

fun freq_rows ::
  "frame \<Rightarrow> string \<Rightarrow> string \<Rightarrow> string \<Rightarrow> (int \<times> fval) list \<Rightarrow> nat list
     \<Rightarrow> py_error + (int \<times> fval) list" where
  "freq_rows df lower_date upper_date dens date_dict [] = Inr date_dict"
| "freq_rows df lower_date upper_date dens date_dict (row # rest) =
     (case int_at df lower_date row of Inl e \<Rightarrow> Inl e | Inr a \<Rightarrow>
      (case int_at df upper_date row of Inl e \<Rightarrow> Inl e | Inr b \<Rightarrow>
      (case freq_years df dens row date_dict (py_range a b) of Inl e \<Rightarrow> Inl e | Inr d \<Rightarrow>
        freq_rows df lower_date upper_date dens d rest)))"

text \<open>
  \<open>year_freq_series\<close>: the bins from the minimum of the lower dates and the maximum
  of the upper dates of the whole table, then the two \<open>dropna\<close> calls, then the
  loops. The parameter \<open>dens_per_year\<close> of the source is \<open>dens\<close> here, the name being
  taken by the function.
\<close>

definition year_freq_series ::
  "store \<Rightarrow> nat \<Rightarrow> string \<Rightarrow> string \<Rightarrow> string \<Rightarrow> string \<Rightarrow> string
     \<Rightarrow> py_error + store \<times> fval series" where
  "year_freq_series st data lower_date upper_date dens name index_name =
     (case getitem (frames st data) lower_date of Inl e \<Rightarrow> Inl e | Inr lc \<Rightarrow>
     (case series_min lc of Inl e \<Rightarrow> Inl e | Inr minimum \<Rightarrow>
     (case getitem (frames st data) upper_date of Inl e \<Rightarrow> Inl e | Inr uc \<Rightarrow>
     (case series_max uc of Inl e \<Rightarrow> Inl e | Inr maximum \<Rightarrow>
     (case py_int minimum of Inl e \<Rightarrow> Inl e | Inr a \<Rightarrow>
     (case py_int maximum of Inl e \<Rightarrow> Inl e | Inr b \<Rightarrow>
     (let date_dict = fromkeys (py_range a b) (Finite 0) in
     (case dropna st data lower_date of Inl e \<Rightarrow> Inl e | Inr (st1, df1) \<Rightarrow>
     (case dropna st1 df1 upper_date of Inl e \<Rightarrow> Inl e | Inr (st2, df) \<Rightarrow>
     (case freq_rows (frames st2 df) lower_date upper_date dens date_dict
            [0..<length (rows (frames st2 df))] of
        Inl e \<Rightarrow> Inl e
      | Inr d \<Rightarrow> Inr (st2, create_series d name index_name)))))))))))"

section \<open>The distinct-site-count aggregator\<close>

text \<open>
  The inner loop over the row numbers for one year: the chained comparison
  \<open>lower <= year <= upper\<close> reads the upper date only when the first test holds.
\<close>

fun site_rows ::
  "frame \<Rightarrow> string \<Rightarrow> string \<Rightarrow> string \<Rightarrow> int \<Rightarrow> scalar list \<Rightarrow> nat list
     \<Rightarrow> py_error + scalar list" where
  "site_rows df lower_date upper_date site_list year result_list [] = Inr result_list"
| "site_rows df lower_date upper_date site_list year result_list (row # rest) =
     (case int_at df lower_date row of Inl e \<Rightarrow> Inl e | Inr a \<Rightarrow>
      if a \<le> year then
        (case int_at df upper_date row of Inl e \<Rightarrow> Inl e | Inr b \<Rightarrow>
         if year \<le> b then
           (case getitem df site_list of Inl e \<Rightarrow> Inl e | Inr col \<Rightarrow>
           (case iloc (cells col) row of Inl e \<Rightarrow> Inl e | Inr v \<Rightarrow>
              site_rows df lower_date upper_date site_list year (result_list @ [v]) rest))
         else site_rows df lower_date upper_date site_list year result_list rest)
      else site_rows df lower_date upper_date site_list year result_list rest)"

text \<open>
  \<open>[item for sublist in result_list for item in sublist]\<close>: a float cell is not
  iterable.
\<close>

fun flatten :: "scalar list \<Rightarrow> py_error + string list" where
  "flatten [] = Inr []"
| "flatten (PyList l # rest) = (case flatten rest of Inl e \<Rightarrow> Inl e | Inr r \<Rightarrow> Inr (l @ r))"
| "flatten (Float x # rest) = Inl TypeError"

text \<open>The loop over the years of the bin map; \<open>len(set(flat_list))\<close> counts without repeats.\<close>

fun site_years ::
  "frame \<Rightarrow> string \<Rightarrow> string \<Rightarrow> string \<Rightarrow> (int \<times> int) list \<Rightarrow> int list
     \<Rightarrow> py_error + (int \<times> int) list" where
  "site_years df lower_date upper_date site_list date_dict [] = Inr date_dict"
| "site_years df lower_date upper_date site_list date_dict (year # ys) =
     (case site_rows df lower_date upper_date site_list year [] [0..<length (rows df)] of
        Inl e \<Rightarrow> Inl e
      | Inr result_list \<Rightarrow>
          if length result_list = 0
          then site_years df lower_date upper_date site_list date_dict ys
          else
            (case flatten result_list of
               Inl e \<Rightarrow> Inl e
             | Inr flat_list \<Rightarrow>
                 site_years df lower_date upper_date site_list
                   (AList.update year (int (length (remdups flat_list))) date_dict) ys))"

text \<open>\<open>year_site_count_series\<close>: the same head, then the loop over the years.\<close>

definition year_site_count_series ::
  "store \<Rightarrow> nat \<Rightarrow> string \<Rightarrow> string \<Rightarrow> string \<Rightarrow> string \<Rightarrow> string
     \<Rightarrow> py_error + store \<times> int series" where
  "year_site_count_series st data lower_date upper_date site_list name index_name =
     (case getitem (frames st data) lower_date of Inl e \<Rightarrow> Inl e | Inr lc \<Rightarrow>
     (case series_min lc of Inl e \<Rightarrow> Inl e | Inr minimum \<Rightarrow>
     (case getitem (frames st data) upper_date of Inl e \<Rightarrow> Inl e | Inr uc \<Rightarrow>
     (case series_max uc of Inl e \<Rightarrow> Inl e | Inr maximum \<Rightarrow>
     (case py_int minimum of Inl e \<Rightarrow> Inl e | Inr a \<Rightarrow>
     (case py_int maximum of Inl e \<Rightarrow> Inl e | Inr b \<Rightarrow>
     (let date_dict = fromkeys (py_range a b) 0 in
     (case dropna st data lower_date of Inl e \<Rightarrow> Inl e | Inr (st1, df1) \<Rightarrow>
     (case dropna st1 df1 upper_date of Inl e \<Rightarrow> Inl e | Inr (st2, df) \<Rightarrow>
     (case site_years (frames st2 df) lower_date upper_date site_list date_dict
            (map fst date_dict) of
        Inl e \<Rightarrow> Inl e
      | Inr d \<Rightarrow> Inr (st2, create_series d name index_name)))))))))))"

section \<open>The type-count aggregator\<close>

text \<open>
  The inner loop counts the rows that pass the chained comparison; the outer loop stores
  the count of every year, zero included.
\<close>

fun type_rows ::
  "frame \<Rightarrow> string \<Rightarrow> string \<Rightarrow> int \<Rightarrow> int \<Rightarrow> nat list \<Rightarrow> py_error + int" where
  "type_rows df lower_date upper_date year counter [] = Inr counter"
| "type_rows df lower_date upper_date year counter (row # rest) =
     (case int_at df lower_date row of Inl e \<Rightarrow> Inl e | Inr a \<Rightarrow>
      if a \<le> year then
        (case int_at df upper_date row of Inl e \<Rightarrow> Inl e | Inr b \<Rightarrow>
         if year \<le> b then type_rows df lower_date upper_date year (counter + 1) rest
         else type_rows df lower_date upper_date year counter rest)
      else type_rows df lower_date upper_date year counter rest)"

fun type_years ::
  "frame \<Rightarrow> string \<Rightarrow> string \<Rightarrow> (int \<times> int) list \<Rightarrow> int list \<Rightarrow> py_error + (int \<times> int) list" where
  "type_years df lower_date upper_date date_dict [] = Inr date_dict"
| "type_years df lower_date upper_date date_dict (year # ys) =
     (case type_rows df lower_date upper_date year 0 [0..<length (rows df)] of
        Inl e \<Rightarrow> Inl e
      | Inr counter \<Rightarrow>
          type_years df lower_date upper_date (AList.update year counter date_dict) ys)"

definition year_type_count_series ::
  "store \<Rightarrow> nat \<Rightarrow> string \<Rightarrow> string \<Rightarrow> string \<Rightarrow> string
     \<Rightarrow> py_error + store \<times> int series" where
  "year_type_count_series st data lower_date upper_date name index_name =
     (case getitem (frames st data) lower_date of Inl e \<Rightarrow> Inl e | Inr lc \<Rightarrow>
     (case series_min lc of Inl e \<Rightarrow> Inl e | Inr minimum \<Rightarrow>
     (case getitem (frames st data) upper_date of Inl e \<Rightarrow> Inl e | Inr uc \<Rightarrow>
     (case series_max uc of Inl e \<Rightarrow> Inl e | Inr maximum \<Rightarrow>
     (case py_int minimum of Inl e \<Rightarrow> Inl e | Inr a \<Rightarrow>
     (case py_int maximum of Inl e \<Rightarrow> Inl e | Inr b \<Rightarrow>
     (let date_dict = fromkeys (py_range a b) 0 in
     (case dropna st data lower_date of Inl e \<Rightarrow> Inl e | Inr (st1, df1) \<Rightarrow>
     (case dropna st1 df1 upper_date of Inl e \<Rightarrow> Inl e | Inr (st2, df) \<Rightarrow>
     (case type_years (frames st2 df) lower_date upper_date date_dict (map fst date_dict) of
        Inl e \<Rightarrow> Inl e
      | Inr d \<Rightarrow> Inr (st2, create_series d name index_name)))))))))))"

section \<open>Notions the properties are stated with\<close>

text \<open>
  The first part of each aggregator, up to the two \<open>dropna\<close> calls, is the same in all
  three; \<open>bins_and_df\<close> names it so that it is analysed once. It returns the fresh bin
  map, the store after the two calls and the reference \<open>df\<close>.
\<close>

definition bins_and_df ::
  "store \<Rightarrow> nat \<Rightarrow> string \<Rightarrow> string \<Rightarrow> 'v \<Rightarrow> py_error + (int \<times> 'v) list \<times> store \<times> nat" where
  "bins_and_df st data lower_date upper_date zero =
     (case getitem (frames st data) lower_date of Inl e \<Rightarrow> Inl e | Inr lc \<Rightarrow>
     (case series_min lc of Inl e \<Rightarrow> Inl e | Inr minimum \<Rightarrow>
     (case getitem (frames st data) upper_date of Inl e \<Rightarrow> Inl e | Inr uc \<Rightarrow>
     (case series_max uc of Inl e \<Rightarrow> Inl e | Inr maximum \<Rightarrow>
     (case py_int minimum of Inl e \<Rightarrow> Inl e | Inr a \<Rightarrow>
     (case py_int maximum of Inl e \<Rightarrow> Inl e | Inr b \<Rightarrow>
     (case dropna st data lower_date of Inl e \<Rightarrow> Inl e | Inr (st1, df1) \<Rightarrow>
     (case dropna st1 df1 upper_date of Inl e \<Rightarrow> Inl e | Inr (st2, df) \<Rightarrow>
        Inr (fromkeys (py_range a b) zero, st2, df)))))))))"

text \<open>A row with both dates present, and the sum of a list of floats from 0, left to right.\<close>

definition valid_row :: "string \<Rightarrow> string \<Rightarrow> row \<Rightarrow> bool" where
  "valid_row lo up r = (num r lo \<noteq> NaN \<and> num r up \<noteq> NaN)"

definition fsum :: "fval list \<Rightarrow> fval" where
  "fsum xs = foldl fadd (Finite 0) xs"

text \<open>
  The two interval tests of the aggregators on a row, at the year \<open>Y\<close>, with the dates
  cut to integers as the code cuts them (towards zero).
\<close>

definition covers_half_open :: "string \<Rightarrow> string \<Rightarrow> int \<Rightarrow> row \<Rightarrow> bool" where
  "covers_half_open lo up Y r =
     (case (num r lo, num r up) of
        (Finite a, Finite b) \<Rightarrow> trunc a \<le> Y \<and> Y < trunc b
      | _ \<Rightarrow> False)"

definition covers_inclusive :: "string \<Rightarrow> string \<Rightarrow> int \<Rightarrow> row \<Rightarrow> bool" where
  "covers_inclusive lo up Y r =
     (case (num r lo, num r up) of
        (Finite a, Finite b) \<Rightarrow> trunc a \<le> Y \<and> Y \<le> trunc b
      | _ \<Rightarrow> False)"

text \<open>
  What the data model asks of the two date columns: both are \<open>float64\<close> columns, every
  cell is a year bound or null, and each column has a cell that is not null.
\<close>

fun date_cell :: "fval \<Rightarrow> bool" where
  "date_cell PosInf = False"
| "date_cell NegInf = False"
| "date_cell x = True"

definition date_columns_ok :: "frame \<Rightarrow> string \<Rightarrow> string \<Rightarrow> bool" where
  "date_columns_ok f lo up =
     (map_of (dtypes f) lo = Some Float64 \<and> map_of (dtypes f) up = Some Float64
      \<and> list_all (\<lambda>r. date_cell (num r lo) \<and> date_cell (num r up)) (rows f)
      \<and> list_ex (\<lambda>r. num r lo \<noteq> NaN) (rows f)
      \<and> list_ex (\<lambda>r. num r up \<noteq> NaN) (rows f))"

text \<open>
  The series of a run, when it returned one; its index; and its value at a year, which
  is \<open>None\<close> when the run raised or the year is not in the index.
\<close>

definition series_of :: "py_error + store \<times> 'v series \<Rightarrow> py_error + 'v series" where
  "series_of res = (case res of Inl e \<Rightarrow> Inl e | Inr (st, s) \<Rightarrow> Inr s)"



text \<open>The cell of a row in the column \<open>c\<close> of a table, as \<open>df[c].iloc[row]\<close> reads it.\<close>

definition site_cell :: "frame \<Rightarrow> string \<Rightarrow> row \<Rightarrow> scalar" where
  "site_cell df c r =
     (case map_of (dtypes df) c of Some Object \<Rightarrow> PyList (obj r c) | _ \<Rightarrow> Float (num r c))"

text \<open>
  The number of distinct site identifiers in the \<open>site\<close> cells of the rows of a table
  that satisfy \<open>P\<close>: the cells are flattened into one list, and the set of its
  elements is counted.
\<close>

definition site_count :: "frame \<Rightarrow> string \<Rightarrow> (row \<Rightarrow> bool) \<Rightarrow> int" where
  "site_count f site P = int (card (set (concat (map (\<lambda>r. obj r site) (filter P (rows f))))))"

section \<open>Example tables\<close>

text \<open>
  A row from its numeric cells and its site-list cells (NaN and the empty list
  elsewhere), and the store that holds one table, under the reference 0.
\<close>

definition mk_row :: "(string \<times> fval) list \<Rightarrow> (string \<times> string list) list \<Rightarrow> row" where
  "mk_row ns os =
     \<lparr>num = (\<lambda>c. case map_of ns c of Some x \<Rightarrow> x | None \<Rightarrow> NaN),
      obj = (\<lambda>c. case map_of os c of Some l \<Rightarrow> l | None \<Rightarrow> [])\<rparr>"

definition store_of :: "frame \<Rightarrow> store" where
  "store_of f = \<lparr>frames = (\<lambda>_. f), fresh = 1\<rparr>"

definition amphora_dtypes :: "(string \<times> dtype) list" where
  "amphora_dtypes =
     [(''lower_date'', Float64), (''upper_date'', Float64),
      (''density_per_year'', Float64), (''site_list'', Object)]"


section \<open>The interval tests as the specification words them\<close>






text \<open>
  The worked example of the specification: sites A, B from 1990 to 1995 and sites B, C
  from 1993 to 1998.
\<close>

definition sites_table :: frame where
  "sites_table =
     \<lparr>dtypes = amphora_dtypes,
      rows =
        [mk_row [(''lower_date'', Finite 1990), (''upper_date'', Finite 1995),
                 (''density_per_year'', Finite 1)] [(''site_list'', [''A'', ''B''])],
         mk_row [(''lower_date'', Finite 1993), (''upper_date'', Finite 1998),
                 (''density_per_year'', Finite 1)] [(''site_list'', [''B'', ''C''])]]\<rparr>"










text \<open>
  A type dated from 2000 to 2005 with rate 5 at site A, beside a type dated from 1998
  to 2008 with rate 1 at site B; and the second type alone.
\<close>

definition boundary_table :: frame where
  "boundary_table =
     \<lparr>dtypes = amphora_dtypes,
      rows =
        [mk_row [(''lower_date'', Finite 2000), (''upper_date'', Finite 2005),
                 (''density_per_year'', Finite 5)] [(''site_list'', [''A''])],
         mk_row [(''lower_date'', Finite 1998), (''upper_date'', Finite 2008),
                 (''density_per_year'', Finite 1)] [(''site_list'', [''B''])]]\<rparr>"

definition boundary_rest :: frame where
  "boundary_rest =
     \<lparr>dtypes = amphora_dtypes,
      rows =
        [mk_row [(''lower_date'', Finite 1998), (''upper_date'', Finite 2008),
                 (''density_per_year'', Finite 1)] [(''site_list'', [''B''])]]\<rparr>"



text \<open>
  A table for the derived-column calculator: a type with equal lower and upper date and
  quantity 4, and a type dated from 100 to 102 with quantity 4.
\<close>

definition degenerate_table :: frame where
  "degenerate_table =
     \<lparr>dtypes = [(''type_density'', Float64), (''lower_date'', Float64), (''upper_date'', Float64)],
      rows =
        [mk_row [(''type_density'', Finite 4), (''lower_date'', Finite 100),
                 (''upper_date'', Finite 100)] [],
         mk_row [(''type_density'', Finite 4), (''lower_date'', Finite 100),
                 (''upper_date'', Finite 102)] []]\<rparr>"

text \<open>The column \<open>c\<close> of the table that a run of \<open>dens_per_year\<close> returned.\<close>

definition column_after :: "py_error + store \<times> nat \<Rightarrow> string \<Rightarrow> py_error + column" where
  "column_after res c = (case res of Inl e \<Rightarrow> Inl e | Inr (st, r) \<Rightarrow> getitem (frames st r) c)"

text \<open>
  A table as the pipeline receives it: quantity, dates and sites, and no rate column
  yet.
\<close>

definition pipeline_table :: frame where
  "pipeline_table =
     \<lparr>dtypes = [(''type_density'', Float64), (''lower_date'', Float64), (''upper_date'', Float64),
                (''site_list'', Object)],
      rows =
        [mk_row [(''type_density'', Finite 10), (''lower_date'', Finite 2000),
                 (''upper_date'', Finite 2005)] [(''site_list'', [''A'', ''B''])],
         mk_row [(''type_density'', Finite 4), (''lower_date'', Finite 2002),
                 (''upper_date'', Finite 2004)] [(''site_list'', [''B''])]]\<rparr>"

section \<open>Auxiliary facts\<close>

subsection \<open>Truncation, ranges, bins\<close>


lemma set_py_range: "Y \<in> set (py_range a b) \<longleftrightarrow> a \<le> Y \<and> Y < b"
  by (auto simp: py_range_def)

lemma distinct_py_range: "distinct (py_range a b)"
  by (simp add: py_range_def)


lemma map_fst_fromkeys: "map fst (fromkeys ks v) = ks"
  by (simp add: fromkeys_def comp_def)

lemma map_of_fromkeys: "map_of (fromkeys ks v) k = (if k \<in> set ks then Some v else None)"
  by (induction ks) (auto simp: fromkeys_def)

lemma map_fst_update: "k \<in> fst ` set d \<Longrightarrow> map fst (AList.update k v d) = map fst d"
  by (simp add: update_keys)

lemma map_of_Some_key: "map_of d k = Some v \<Longrightarrow> k \<in> fst ` set d"
  using map_of_eq_None_iff[of d k] by auto

subsection \<open>Reading cells\<close>

lemma getitem_float:
  "map_of (dtypes f) c = Some Float64 \<Longrightarrow> getitem f c = Inr (FloatCol (map (\<lambda>r. num r c) (rows f)))"
  by (simp add: getitem_def)



lemma int_at_Inr:
  assumes "int_at df c row = Inr a"
  shows "map_of (dtypes df) c = Some Float64 \<and> (\<forall>r\<in>set (rows df). is_finite (num r c))
         \<and> row < length (rows df) \<and> a = cast_int (num (rows df ! row) c)"
  using assms
  by (auto simp: int_at_def getitem_def iloc_def list_all_iff
      split: option.splits dtype.splits sum.splits if_splits)

lemma is_finite_iff: "is_finite x \<longleftrightarrow> (\<exists>q. x = Finite q)"
  by (cases x) auto

lemma int_at_Finite:
  assumes "int_at df c row = Inr a"
  shows "\<exists>q. num (rows df ! row) c = Finite q \<and> a = trunc q"
proof -
  from int_at_Inr[OF assms] have "is_finite (num (rows df ! row) c)"
    and "a = cast_int (num (rows df ! row) c)" by auto
  then show ?thesis by (auto simp: is_finite_iff)
qed

lemma int_at_float:
  assumes "map_of (dtypes df) c = Some Float64" "\<forall>r\<in>set (rows df). is_finite (num r c)"
    "row < length (rows df)"
  shows "int_at df c row = Inr (cast_int (num (rows df ! row) c))"
  using assms by (simp add: int_at_def getitem_def iloc_def list_all_iff)


lemma py_int_Inr: "py_int x = Inr a \<Longrightarrow> \<exists>q. x = Finite q \<and> a = trunc q"
  by (cases x) auto

subsection \<open>The loops of the summed-rate aggregator\<close>

lemma freq_years_Inr:
  assumes "freq_years df dens row d ys = Inr d'" "distinct ys"
  shows "map fst d' = map fst d \<and>
         (\<forall>Y. map_of d' Y =
            (if Y \<in> set ys then map_option (\<lambda>acc. fadd acc (num (rows df ! row) dens)) (map_of d Y)
             else map_of d Y))"
  using assms
proof (induction ys arbitrary: d)
  case Nil
  then show ?case by simp
next
  case (Cons y ys)
  from Cons.prems(1) obtain acc col v acc' where
    acc: "map_of d y = Some acc" and col: "getitem df dens = Inr col"
    and v: "iloc (cells col) row = Inr v" and acc': "iadd acc v = Inr acc'"
    and rest: "freq_years df dens row (AList.update y acc' d) ys = Inr d'"
    by (auto split: option.splits sum.splits)
  from acc' obtain x where vx: "v = Float x" and a': "acc' = fadd acc x"
    by (cases v) auto
  from col v vx have x: "x = num (rows df ! row) dens"
    by (auto simp: getitem_def iloc_def split: option.splits dtype.splits if_splits)
  from acc have yk: "y \<in> fst ` set d" by (rule map_of_Some_key)
  from Cons.IH[OF rest] Cons.prems(2)
  have IH: "map fst d' = map fst (AList.update y acc' d)"
    "\<And>Y. map_of d' Y = (if Y \<in> set ys
        then map_option (\<lambda>acc. fadd acc (num (rows df ! row) dens)) (map_of (AList.update y acc' d) Y)
        else map_of (AList.update y acc' d) Y)"
    by auto
  show ?case
  proof (intro conjI allI)
    show "map fst d' = map fst d" using IH(1) yk by (simp add: map_fst_update)
  next
    fix Y
    show "map_of d' Y = (if Y \<in> set (y # ys)
        then map_option (\<lambda>acc. fadd acc (num (rows df ! row) dens)) (map_of d Y) else map_of d Y)"
      using IH(2)[of Y] Cons.prems(2) acc a' x by (auto simp: update_conv')
  qed
qed

lemma freq_rows_Inr:
  assumes "freq_rows df lo up dens d is = Inr d'"
  shows "map fst d' = map fst d \<and>
         (\<forall>Y. map_of d' Y =
            map_option (\<lambda>acc. foldl fadd acc (map (\<lambda>r. num r dens)
              (filter (covers_half_open lo up Y) (map ((!) (rows df)) is)))) (map_of d Y))"
  using assms
proof (induction "is" arbitrary: d)
  case Nil
  then show ?case by (simp add: option.map_ident)
next
  case (Cons row rest)
  from Cons.prems obtain a b d1 where
    a: "int_at df lo row = Inr a" and b: "int_at df up row = Inr b"
    and d1: "freq_years df dens row d (py_range a b) = Inr d1"
    and rest: "freq_rows df lo up dens d1 rest = Inr d'"
    by (auto split: sum.splits)
  from int_at_Finite[OF a] obtain qa where qa: "num (rows df ! row) lo = Finite qa" "a = trunc qa"
    by auto
  from int_at_Finite[OF b] obtain qb where qb: "num (rows df ! row) up = Finite qb" "b = trunc qb"
    by auto
  have cov: "\<And>Y. covers_half_open lo up Y (rows df ! row) \<longleftrightarrow> Y \<in> set (py_range a b)"
    using qa qb by (simp add: covers_half_open_def set_py_range)
  note fy = freq_years_Inr[OF d1 distinct_py_range]
  note IH = Cons.IH[OF rest]
  show ?case
  proof (intro conjI allI)
    show "map fst d' = map fst d" using fy IH by simp
  next
    fix Y
    show "map_of d' Y =
            map_option (\<lambda>acc. foldl fadd acc (map (\<lambda>r. num r dens)
              (filter (covers_half_open lo up Y) (map ((!) (rows df)) (row # rest))))) (map_of d Y)"
      using fy IH cov[of Y] by (cases "map_of d Y") auto
  qed
qed

subsection \<open>The shared head of the aggregators\<close>

lemma year_freq_series_bins:
  "year_freq_series st data lo up dens name index_name =
     (case bins_and_df st data lo up (Finite 0) of
        Inl e \<Rightarrow> Inl e
      | Inr (date_dict, st2, df) \<Rightarrow>
     (case freq_rows (frames st2 df) lo up dens date_dict [0..<length (rows (frames st2 df))] of
        Inl e \<Rightarrow> Inl e
      | Inr d \<Rightarrow> Inr (st2, create_series d name index_name)))"
  by (simp add: year_freq_series_def bins_and_df_def split: sum.splits prod.splits)

lemma year_site_count_series_bins:
  "year_site_count_series st data lo up site name index_name =
     (case bins_and_df st data lo up 0 of
        Inl e \<Rightarrow> Inl e
      | Inr (date_dict, st2, df) \<Rightarrow>
     (case site_years (frames st2 df) lo up site date_dict (map fst date_dict) of
        Inl e \<Rightarrow> Inl e
      | Inr d \<Rightarrow> Inr (st2, create_series d name index_name)))"
  by (simp add: year_site_count_series_def bins_and_df_def split: sum.splits prod.splits)

lemma year_type_count_series_bins:
  "year_type_count_series st data lo up name index_name =
     (case bins_and_df st data lo up 0 of
        Inl e \<Rightarrow> Inl e
      | Inr (date_dict, st2, df) \<Rightarrow>
     (case type_years (frames st2 df) lo up date_dict (map fst date_dict) of
        Inl e \<Rightarrow> Inl e
      | Inr d \<Rightarrow> Inr (st2, create_series d name index_name)))"
  by (simp add: year_type_count_series_def bins_and_df_def split: sum.splits prod.splits)

lemma bins_and_df_Inr:
  assumes "bins_and_df st data lo up z = Inr (d, st2, df)"
  shows "map_of (dtypes (frames st data)) lo = Some Float64"
    and "map_of (dtypes (frames st data)) up = Some Float64"
    and "\<exists>mn mx. nanmin (map (\<lambda>r. num r lo) (rows (frames st data))) = Finite mn
           \<and> nanmax (map (\<lambda>r. num r up) (rows (frames st data))) = Finite mx
           \<and> d = fromkeys (py_range (trunc mn) (trunc mx)) z"
    and "frames st2 df = (frames st data)\<lparr>rows := filter (valid_row lo up) (rows (frames st data))\<rparr>"
    and "\<forall>r. r < fresh st \<longrightarrow> frames st2 r = frames st r"
proof -
  let ?f = "frames st data"
  from assms obtain lc minimum uc maximum a b st1 df1 where
    lc: "getitem ?f lo = Inr lc" and mn: "series_min lc = Inr minimum"
    and uc: "getitem ?f up = Inr uc" and mx: "series_max uc = Inr maximum"
    and a: "py_int minimum = Inr a" and b: "py_int maximum = Inr b"
    and d1: "dropna st data lo = Inr (st1, df1)" and d2: "dropna st1 df1 up = Inr (st2, df)"
    and d: "d = fromkeys (py_range a b) z"
    unfolding bins_and_df_def by (auto split: sum.splits prod.splits)
  from py_int_Inr[OF a] obtain qa where qa: "minimum = Finite qa" "a = trunc qa" by auto
  from py_int_Inr[OF b] obtain qb where qb: "maximum = Finite qb" "b = trunc qb" by auto
  show lo: "map_of (dtypes ?f) lo = Some Float64"
    using lc mn qa by (auto simp: getitem_def split: option.splits dtype.splits if_splits)
  show up: "map_of (dtypes ?f) up = Some Float64"
    using uc mx qb by (auto simp: getitem_def split: option.splits dtype.splits if_splits)
  show "\<exists>mn mx. nanmin (map (\<lambda>r. num r lo) (rows ?f)) = Finite mn
           \<and> nanmax (map (\<lambda>r. num r up) (rows ?f)) = Finite mx
           \<and> d = fromkeys (py_range (trunc mn) (trunc mx)) z"
    using lc mn uc mx qa qb d lo up by (auto simp: getitem_def)
  from d1 lo have st1: "df1 = fresh st"
    "st1 = st\<lparr>frames := (frames st)(fresh st := ?f\<lparr>rows := filter (\<lambda>r. num r lo \<noteq> NaN) (rows ?f)\<rparr>),
               fresh := Suc (fresh st)\<rparr>"
    by (auto simp: dropna_def alloc_def Let_def)
  from d2 up st1 have st2: "df = Suc (fresh st)"
    "frames st2 = (frames st1)(Suc (fresh st) := ?f\<lparr>rows := filter (\<lambda>r. num r up \<noteq> NaN) (filter (\<lambda>r. num r lo \<noteq> NaN) (rows ?f))\<rparr>)"
    by (auto simp: dropna_def alloc_def Let_def)
  show "frames st2 df = ?f\<lparr>rows := filter (valid_row lo up) (rows ?f)\<rparr>"
    using st2 by (simp add: valid_row_def[abs_def])
  show "\<forall>r. r < fresh st \<longrightarrow> frames st2 r = frames st r"
    using st1 st2 by simp
qed

subsection \<open>Minimum and maximum of a column\<close>

lemma fle_refl: "x \<noteq> NaN \<Longrightarrow> fle x x"
  by (cases x) auto

lemma fle_trans: "fle a b \<Longrightarrow> fle b c \<Longrightarrow> b \<noteq> NaN \<Longrightarrow> fle a c"
  by (cases a; cases b; cases c) auto

lemma fle_total: "a \<noteq> NaN \<Longrightarrow> b \<noteq> NaN \<Longrightarrow> fle a b \<or> fle b a"
  by (cases a; cases b) auto

lemma fold_fmin:
  assumes "\<forall>z\<in>set (y # ys). z \<noteq> NaN"
  shows "fold fmin ys y \<in> set (y # ys) \<and> (\<forall>z\<in>set (y # ys). fle (fold fmin ys y) z)"
  using assms
proof (induction ys arbitrary: y)
  case Nil
  then show ?case by (simp add: fle_refl)
next
  case (Cons x xs)
  let ?m = "fmin x y"
  have m: "?m \<in> {y, x}" "fle ?m y" "fle ?m x" "?m \<noteq> NaN"
    using Cons.prems fle_total[of x y] by (auto simp: fmin_def fle_refl)
  have "\<forall>z\<in>set (?m # xs). z \<noteq> NaN" using Cons.prems m by auto
  from Cons.IH[OF this] have IH: "fold fmin xs ?m \<in> set (?m # xs)"
    "\<forall>z\<in>set (?m # xs). fle (fold fmin xs ?m) z" by auto
  have "fle (fold fmin xs ?m) ?m" using IH(2) by simp
  then have "fle (fold fmin xs ?m) y" "fle (fold fmin xs ?m) x"
    using m fle_trans by blast+
  then show ?case using IH m by auto
qed

lemma fold_fmax:
  assumes "\<forall>z\<in>set (y # ys). z \<noteq> NaN"
  shows "fold fmax ys y \<in> set (y # ys) \<and> (\<forall>z\<in>set (y # ys). fle z (fold fmax ys y))"
  using assms
proof (induction ys arbitrary: y)
  case Nil
  then show ?case by (simp add: fle_refl)
next
  case (Cons x xs)
  let ?m = "fmax x y"
  have m: "?m \<in> {y, x}" "fle y ?m" "fle x ?m" "?m \<noteq> NaN"
    using Cons.prems fle_total[of x y] by (auto simp: fmax_def fle_refl)
  have "\<forall>z\<in>set (?m # xs). z \<noteq> NaN" using Cons.prems m by auto
  from Cons.IH[OF this] have IH: "fold fmax xs ?m \<in> set (?m # xs)"
    "\<forall>z\<in>set (?m # xs). fle z (fold fmax xs ?m)" by auto
  have "fle ?m (fold fmax xs ?m)" using IH(2) by simp
  then have "fle y (fold fmax xs ?m)" "fle x (fold fmax xs ?m)"
    using m fle_trans by blast+
  then show ?case using IH m by auto
qed

lemma nanmin_props:
  assumes "\<exists>x\<in>set xs. x \<noteq> NaN"
  shows "nanmin xs \<in> set xs \<and> nanmin xs \<noteq> NaN \<and> (\<forall>x\<in>set xs. x \<noteq> NaN \<longrightarrow> fle (nanmin xs) x)"
proof -
  from assms obtain y ys where f: "filter (\<lambda>x. x \<noteq> NaN) xs = y # ys"
    by (cases "filter (\<lambda>x. x \<noteq> NaN) xs") (auto simp: filter_empty_conv)
  have s: "set (y # ys) = {x \<in> set xs. x \<noteq> NaN}" using f[symmetric] by simp
  then have "\<forall>z\<in>set (y # ys). z \<noteq> NaN" by blast
  from fold_fmin[OF this] s f show ?thesis by (auto simp: nanmin_def)
qed

lemma nanmax_props:
  assumes "\<exists>x\<in>set xs. x \<noteq> NaN"
  shows "nanmax xs \<in> set xs \<and> nanmax xs \<noteq> NaN \<and> (\<forall>x\<in>set xs. x \<noteq> NaN \<longrightarrow> fle x (nanmax xs))"
proof -
  from assms obtain y ys where f: "filter (\<lambda>x. x \<noteq> NaN) xs = y # ys"
    by (cases "filter (\<lambda>x. x \<noteq> NaN) xs") (auto simp: filter_empty_conv)
  have s: "set (y # ys) = {x \<in> set xs. x \<noteq> NaN}" using f[symmetric] by simp
  then have "\<forall>z\<in>set (y # ys). z \<noteq> NaN" by blast
  from fold_fmax[OF this] s f show ?thesis by (auto simp: nanmax_def)
qed








lemma nanmin_is_Finite:
  assumes "\<forall>x\<in>set xs. x = NaN \<or> is_finite x" "\<exists>x\<in>set xs. x \<noteq> NaN"
  shows "\<exists>m. nanmin xs = Finite m"
  using nanmin_props[OF assms(2)] assms(1) by (auto simp: is_finite_iff)

lemma nanmax_is_Finite:
  assumes "\<forall>x\<in>set xs. x = NaN \<or> is_finite x" "\<exists>x\<in>set xs. x \<noteq> NaN"
  shows "\<exists>m. nanmax xs = Finite m"
  using nanmax_props[OF assms(2)] assms(1) by (auto simp: is_finite_iff)

subsection \<open>The bins hold every year a row reaches\<close>

lemma date_cell_iff: "date_cell x \<longleftrightarrow> x = NaN \<or> is_finite x"
  by (cases x) auto


lemma keys_update: "fst ` set (AList.update k v d) = insert k (fst ` set d)"
proof -
  have "set (map fst (AList.update k v d)) = insert k (set (map fst d))"
    by (auto simp: update_keys)
  then show ?thesis by simp
qed







subsection \<open>The summed-rate aggregator as a whole\<close>

lemma bins_and_df_ok:
  assumes "date_columns_ok (frames st data) lo up"
  shows "\<exists>d st2 df. bins_and_df st data lo up z = Inr (d, st2, df)"
proof -
  let ?f = "frames st data"
  from assms have lo: "map_of (dtypes ?f) lo = Some Float64" and up: "map_of (dtypes ?f) up = Some Float64"
    and cells: "\<forall>r\<in>set (rows ?f). date_cell (num r lo) \<and> date_cell (num r up)"
    and ex: "\<exists>r\<in>set (rows ?f). num r lo \<noteq> NaN" "\<exists>r\<in>set (rows ?f). num r up \<noteq> NaN"
    by (auto simp: date_columns_ok_def list_all_iff list_ex_iff)
  have "\<exists>m. nanmin (map (\<lambda>r. num r lo) (rows ?f)) = Finite m"
    using cells ex(1) by (intro nanmin_is_Finite) (auto simp: date_cell_iff)
  then obtain mn where mn: "nanmin (map (\<lambda>r. num r lo) (rows ?f)) = Finite mn" by blast
  have "\<exists>m. nanmax (map (\<lambda>r. num r up) (rows ?f)) = Finite m"
    using cells ex(2) by (intro nanmax_is_Finite) (auto simp: date_cell_iff)
  then obtain mx where mx: "nanmax (map (\<lambda>r. num r up) (rows ?f)) = Finite mx" by blast
  show ?thesis
    using lo up mn mx
    by (simp add: bins_and_df_def getitem_float dropna_def alloc_def Let_def)
qed

lemma valid_rows_finite:
  assumes "date_columns_ok f lo up" "r \<in> set (filter (valid_row lo up) (rows f))"
  shows "is_finite (num r lo) \<and> is_finite (num r up)"
  using assms by (auto simp: date_columns_ok_def list_all_iff valid_row_def date_cell_iff)

lemma year_freq_series_Inr:
  assumes "year_freq_series st data lo up dens nm idx = Inr (st', s)"
  shows "\<exists>mn mx. nanmin (map (\<lambda>r. num r lo) (rows (frames st data))) = Finite mn
           \<and> nanmax (map (\<lambda>r. num r up) (rows (frames st data))) = Finite mx
           \<and> map fst (series_items s) = py_range (trunc mn) (trunc mx)"
    and "\<forall>Y. Y \<in> set (map fst (series_items s)) \<longrightarrow>
           map_of (series_items s) Y =
             Some (fsum (map (\<lambda>r. num r dens)
               (filter (\<lambda>r. valid_row lo up r \<and> covers_half_open lo up Y r) (rows (frames st data)))))"
    and "\<forall>r. r < fresh st \<longrightarrow> frames st' r = frames st r"
    and "series_name s = nm \<and> series_index_name s = idx"
proof -
  let ?f = "frames st data"
  from assms obtain d0 df d where
    bins: "bins_and_df st data lo up (Finite 0) = Inr (d0, st', df)"
    and loop: "freq_rows (frames st' df) lo up dens d0 [0..<length (rows (frames st' df))] = Inr d"
    and s: "s = create_series d nm idx"
    unfolding year_freq_series_bins by (auto split: sum.splits prod.splits)
  note b = bins_and_df_Inr[OF bins]
  from b(3) obtain mn mx where mn: "nanmin (map (\<lambda>r. num r lo) (rows ?f)) = Finite mn"
    and mx: "nanmax (map (\<lambda>r. num r up) (rows ?f)) = Finite mx"
    and d0: "d0 = fromkeys (py_range (trunc mn) (trunc mx)) (Finite 0)" by blast
  have rows: "rows (frames st' df) = filter (valid_row lo up) (rows ?f)" using b(4) by simp
  note fr = freq_rows_Inr[OF loop]
  have keys: "map fst (series_items s) = py_range (trunc mn) (trunc mx)"
    using fr s d0 by (simp add: create_series_def map_fst_fromkeys)
  show "\<exists>mn mx. nanmin (map (\<lambda>r. num r lo) (rows ?f)) = Finite mn
           \<and> nanmax (map (\<lambda>r. num r up) (rows ?f)) = Finite mx
           \<and> map fst (series_items s) = py_range (trunc mn) (trunc mx)"
    using mn mx keys by blast
  show "\<forall>Y. Y \<in> set (map fst (series_items s)) \<longrightarrow>
           map_of (series_items s) Y =
             Some (fsum (map (\<lambda>r. num r dens)
               (filter (\<lambda>r. valid_row lo up r \<and> covers_half_open lo up Y r) (rows ?f))))"
  proof (intro allI impI)
    fix Y assume "Y \<in> set (map fst (series_items s))"
    then have Y: "Y \<in> set (py_range (trunc mn) (trunc mx))" using keys by simp
    have "map_of d0 Y = Some (Finite 0)" using Y d0 by (simp add: map_of_fromkeys)
    then have "map_of d Y = Some (foldl fadd (Finite 0) (map (\<lambda>r. num r dens)
              (filter (covers_half_open lo up Y) (filter (valid_row lo up) (rows ?f)))))"
      using fr rows by (simp add: map_nth)
    then show "map_of (series_items s) Y =
             Some (fsum (map (\<lambda>r. num r dens)
               (filter (\<lambda>r. valid_row lo up r \<and> covers_half_open lo up Y r) (rows ?f))))"
      using s by (simp add: create_series_def fsum_def)
  qed
  show "\<forall>r. r < fresh st \<longrightarrow> frames st' r = frames st r" using b(5) .
  show "series_name s = nm \<and> series_index_name s = idx" using s by (simp add: create_series_def)
qed


subsection \<open>The loops of the type-count aggregator\<close>

lemma covers_inclusive_Finite:
  "num r lo = Finite qa \<Longrightarrow> num r up = Finite qb \<Longrightarrow>
     covers_inclusive lo up Y r \<longleftrightarrow> trunc qa \<le> Y \<and> Y \<le> trunc qb"
  by (simp add: covers_inclusive_def)

lemma covers_inclusive_lower:
  "num r lo = Finite qa \<Longrightarrow> \<not> trunc qa \<le> Y \<Longrightarrow> \<not> covers_inclusive lo up Y r"
  by (simp add: covers_inclusive_def split: fval.splits)

lemma type_rows_Inr:
  assumes "type_rows df lo up Y c is = Inr c'"
  shows "c' = c + int (length (filter (covers_inclusive lo up Y) (map ((!) (rows df)) is)))"
  using assms
proof (induction "is" arbitrary: c)
  case Nil
  then show ?case by simp
next
  case (Cons row rest)
  from Cons.prems obtain a where a: "int_at df lo row = Inr a"
    by (auto split: sum.splits)
  from int_at_Finite[OF a] obtain qa where qa: "num (rows df ! row) lo = Finite qa" "a = trunc qa"
    by auto
  show ?case
  proof (cases "a \<le> Y")
    case False
    then have "\<not> covers_inclusive lo up Y (rows df ! row)"
      using qa covers_inclusive_lower by simp
    moreover have "type_rows df lo up Y c rest = Inr c'" using Cons.prems a False by simp
    ultimately show ?thesis using Cons.IH by simp
  next
    case True
    with Cons.prems a obtain b where b: "int_at df up row = Inr b"
      by (auto split: sum.splits)
    from int_at_Finite[OF b] obtain qb where qb: "num (rows df ! row) up = Finite qb" "b = trunc qb"
      by auto
    have cov: "covers_inclusive lo up Y (rows df ! row) \<longleftrightarrow> Y \<le> b"
      using qa qb True by (simp add: covers_inclusive_Finite)
    show ?thesis
    proof (cases "Y \<le> b")
      case True
      then have "type_rows df lo up Y (c + 1) rest = Inr c'" using Cons.prems a b \<open>a \<le> Y\<close> by simp
      from Cons.IH[OF this] show ?thesis using cov True by simp
    next
      case False
      then have "type_rows df lo up Y c rest = Inr c'" using Cons.prems a b \<open>a \<le> Y\<close> by simp
      from Cons.IH[OF this] show ?thesis using cov False by simp
    qed
  qed
qed

lemma type_rows_ok:
  assumes "map_of (dtypes df) lo = Some Float64" "map_of (dtypes df) up = Some Float64"
    and "\<forall>r\<in>set (rows df). is_finite (num r lo) \<and> is_finite (num r up)"
    and "\<forall>i\<in>set is. i < length (rows df)"
  shows "\<exists>c'. type_rows df lo up Y c is = Inr c'"
  using assms(4)
proof (induction "is" arbitrary: c)
  case Nil
  then show ?case by simp
next
  case (Cons row rest)
  have row: "row < length (rows df)" using Cons.prems by simp
  have a: "int_at df lo row = Inr (cast_int (num (rows df ! row) lo))"
    using assms(1,3) row by (simp add: int_at_float)
  have b: "int_at df up row = Inr (cast_int (num (rows df ! row) up))"
    using assms(2,3) row by (simp add: int_at_float)
  have "\<And>c. \<exists>c'. type_rows df lo up Y c rest = Inr c'" using Cons.IH Cons.prems by simp
  then show ?case using a b by simp
qed

lemma type_years_Inr:
  assumes "type_years df lo up d ys = Inr d'" "set ys \<subseteq> fst ` set d"
  shows "map fst d' = map fst d \<and>
         (\<forall>Y. map_of d' Y =
            (if Y \<in> set ys then Some (int (length (filter (covers_inclusive lo up Y) (rows df))))
             else map_of d Y))"
  using assms
proof (induction ys arbitrary: d)
  case Nil
  then show ?case by simp
next
  case (Cons y ys)
  from Cons.prems(1) obtain c where
    c: "type_rows df lo up y 0 [0..<length (rows df)] = Inr c"
    and rest: "type_years df lo up (AList.update y c d) ys = Inr d'"
    by (auto split: sum.splits)
  from type_rows_Inr[OF c] have c': "c = int (length (filter (covers_inclusive lo up y) (rows df)))"
    by (simp add: map_nth)
  have keys: "set ys \<subseteq> fst ` set (AList.update y c d)" using Cons.prems(2) by (auto simp: keys_update)
  from Cons.IH[OF rest keys]
  have IH: "map fst d' = map fst (AList.update y c d)"
    "\<And>Y. map_of d' Y = (if Y \<in> set ys
        then Some (int (length (filter (covers_inclusive lo up Y) (rows df))))
        else map_of (AList.update y c d) Y)"
    by auto
  show ?case
  proof (intro conjI allI)
    show "map fst d' = map fst d" using IH(1) Cons.prems(2) by (simp add: map_fst_update)
  next
    fix Y
    show "map_of d' Y = (if Y \<in> set (y # ys)
        then Some (int (length (filter (covers_inclusive lo up Y) (rows df)))) else map_of d Y)"
      using IH(2)[of Y] c' by (auto simp: update_conv')
  qed
qed

lemma type_years_ok:
  assumes "map_of (dtypes df) lo = Some Float64" "map_of (dtypes df) up = Some Float64"
    and "\<forall>r\<in>set (rows df). is_finite (num r lo) \<and> is_finite (num r up)"
  shows "\<exists>d'. type_years df lo up d ys = Inr d'"
proof (induction ys arbitrary: d)
  case Nil
  then show ?case by simp
next
  case (Cons y ys)
  have "\<exists>c. type_rows df lo up y 0 [0..<length (rows df)] = Inr c"
    using assms by (intro type_rows_ok) auto
  then show ?case using Cons.IH by auto
qed

subsection \<open>The loops of the distinct-site-count aggregator\<close>

lemma cell_at:
  assumes "getitem df c = Inr col" "iloc (cells col) row = Inr v"
  shows "v = site_cell df c (rows df ! row)"
  using assms
  by (auto simp: getitem_def iloc_def site_cell_def split: option.splits dtype.splits if_splits)

lemma site_rows_Inr:
  assumes "site_rows df lo up site Y acc is = Inr res"
  shows "res = acc @ map (site_cell df site) (filter (covers_inclusive lo up Y) (map ((!) (rows df)) is))"
  using assms
proof (induction "is" arbitrary: acc)
  case Nil
  then show ?case by simp
next
  case (Cons row rest)
  from Cons.prems obtain a where a: "int_at df lo row = Inr a"
    by (auto split: sum.splits)
  from int_at_Finite[OF a] obtain qa where qa: "num (rows df ! row) lo = Finite qa" "a = trunc qa"
    by auto
  show ?case
  proof (cases "a \<le> Y")
    case False
    then have "\<not> covers_inclusive lo up Y (rows df ! row)"
      using qa covers_inclusive_lower by simp
    moreover have "site_rows df lo up site Y acc rest = Inr res" using Cons.prems a False by simp
    ultimately show ?thesis using Cons.IH by simp
  next
    case True
    with Cons.prems a obtain b where b: "int_at df up row = Inr b"
      by (auto split: sum.splits)
    from int_at_Finite[OF b] obtain qb where qb: "num (rows df ! row) up = Finite qb" "b = trunc qb"
      by auto
    have cov: "covers_inclusive lo up Y (rows df ! row) \<longleftrightarrow> Y \<le> b"
      using qa qb True by (simp add: covers_inclusive_Finite)
    show ?thesis
    proof (cases "Y \<le> b")
      case True
      with Cons.prems a b \<open>a \<le> Y\<close> obtain col v where
        col: "getitem df site = Inr col" and v: "iloc (cells col) row = Inr v"
        and r: "site_rows df lo up site Y (acc @ [v]) rest = Inr res"
        by (auto split: sum.splits)
      from Cons.IH[OF r] cell_at[OF col v] show ?thesis using cov True by simp
    next
      case False
      then have "site_rows df lo up site Y acc rest = Inr res" using Cons.prems a b \<open>a \<le> Y\<close> by simp
      from Cons.IH[OF this] show ?thesis using cov False by simp
    qed
  qed
qed


lemma flatten_PyList: "flatten (map PyList ls) = Inr (concat ls)"
  by (induction ls) auto

lemma flatten_Inr: "flatten xs = Inr fl \<Longrightarrow> \<exists>ls. xs = map PyList ls"
proof (induction xs arbitrary: fl rule: flatten.induct)
  case 1
  then show ?case by simp
next
  case (2 l rest)
  then obtain r where "flatten rest = Inr r" by (auto split: sum.splits)
  from 2(1)[OF this] obtain ls where "rest = map PyList ls" by blast
  then have "PyList l # rest = map PyList (l # ls)" by simp
  then show ?case by (rule exI)
next
  case (3 x rest)
  then show ?case by simp
qed

lemma site_years_Inr:
  assumes "site_years df lo up site d ys = Inr d'" "set ys \<subseteq> fst ` set d"
  shows "map fst d' = map fst d \<and>
         (\<forall>Y. map_of d' Y =
            (if Y \<in> set ys \<and> filter (covers_inclusive lo up Y) (rows df) \<noteq> []
             then Some (site_count df site (covers_inclusive lo up Y))
             else map_of d Y))"
  using assms
proof (induction ys arbitrary: d)
  case Nil
  then show ?case by simp
next
  case (Cons y ys)
  let ?cov = "filter (covers_inclusive lo up y) (rows df)"
  from Cons.prems(1) obtain res where
    res: "site_rows df lo up site y [] [0..<length (rows df)] = Inr res"
    by (auto split: sum.splits)
  from site_rows_Inr[OF res] have res': "res = map (site_cell df site) ?cov"
    by (simp add: map_nth)
  have keys: "\<And>v. set ys \<subseteq> fst ` set (AList.update y v d)"
    using Cons.prems(2) by (auto simp: keys_update)
  show ?case
  proof (cases "?cov = []")
    case True
    then have rest: "site_years df lo up site d ys = Inr d'" using Cons.prems(1) res res' by simp
    from Cons.prems(2) have "set ys \<subseteq> fst ` set d" by simp
    from Cons.IH[OF rest this] show ?thesis using True by auto
  next
    case False
    then have ne: "res \<noteq> []" using res' by simp
    with Cons.prems(1) res obtain fl where fl: "flatten res = Inr fl"
      and rest: "site_years df lo up site (AList.update y (int (length (remdups fl))) d) ys = Inr d'"
      by (auto split: sum.splits)
    from flatten_Inr[OF fl] obtain ls where ls: "res = map PyList ls" by blast
    from False obtain r rs where cov: "?cov = r # rs" by (cases ?cov) auto
    have "site_cell df site r \<in> set res" using res' cov by simp
    then obtain l where "site_cell df site r = PyList l" using ls by auto
    then have dt: "map_of (dtypes df) site = Some Object"
      by (auto simp: site_cell_def split: option.splits dtype.splits)
    then have "res = map PyList (map (\<lambda>r. obj r site) ?cov)"
      using res' by (simp add: site_cell_def)
    with fl have "fl = concat (map (\<lambda>r. obj r site) ?cov)"
      using flatten_PyList[of "map (\<lambda>r. obj r site) ?cov"] by simp
    then have val: "int (length (remdups fl)) = site_count df site (covers_inclusive lo up y)"
      by (simp add: site_count_def length_remdups_card_conv)
    from Cons.IH[OF rest keys]
    have IH: "map fst d' = map fst (AList.update y (int (length (remdups fl))) d)"
      "\<And>Y. map_of d' Y = (if Y \<in> set ys \<and> filter (covers_inclusive lo up Y) (rows df) \<noteq> []
          then Some (site_count df site (covers_inclusive lo up Y))
          else map_of (AList.update y (int (length (remdups fl))) d) Y)"
      by auto
    show ?thesis
    proof (intro conjI allI)
      show "map fst d' = map fst d" using IH(1) Cons.prems(2) by (simp add: map_fst_update)
    next
      fix Y
      show "map_of d' Y =
            (if Y \<in> set (y # ys) \<and> filter (covers_inclusive lo up Y) (rows df) \<noteq> []
             then Some (site_count df site (covers_inclusive lo up Y))
             else map_of d Y)"
        using IH(2)[of Y] val False by (auto simp: update_conv')
    qed
  qed
qed


subsection \<open>The two counting aggregators as a whole\<close>

lemma year_site_count_series_Inr:
  assumes "year_site_count_series st data lo up site nm idx = Inr (st', s)"
  shows "\<exists>mn mx. nanmin (map (\<lambda>r. num r lo) (rows (frames st data))) = Finite mn
           \<and> nanmax (map (\<lambda>r. num r up) (rows (frames st data))) = Finite mx
           \<and> map fst (series_items s) = py_range (trunc mn) (trunc mx)"
    and "\<forall>Y. Y \<in> set (map fst (series_items s)) \<longrightarrow>
           map_of (series_items s) Y =
             Some (site_count (frames st data) site
                     (\<lambda>r. valid_row lo up r \<and> covers_inclusive lo up Y r))"
    and "\<forall>r. r < fresh st \<longrightarrow> frames st' r = frames st r"
    and "series_name s = nm \<and> series_index_name s = idx"
proof -
  let ?f = "frames st data"
  from assms obtain d0 df d where
    bins: "bins_and_df st data lo up (0::int) = Inr (d0, st', df)"
    and loop: "site_years (frames st' df) lo up site d0 (map fst d0) = Inr d"
    and s: "s = create_series d nm idx"
    unfolding year_site_count_series_bins by (auto split: sum.splits prod.splits)
  note b = bins_and_df_Inr[OF bins]
  from b(3) obtain mn mx where mn: "nanmin (map (\<lambda>r. num r lo) (rows ?f)) = Finite mn"
    and mx: "nanmax (map (\<lambda>r. num r up) (rows ?f)) = Finite mx"
    and d0: "d0 = fromkeys (py_range (trunc mn) (trunc mx)) 0" by blast
  have rows: "rows (frames st' df) = filter (valid_row lo up) (rows ?f)" using b(4) by simp
  have "set (map fst d0) \<subseteq> fst ` set d0" by simp
  note sy = site_years_Inr[OF loop this]
  have keys: "map fst (series_items s) = py_range (trunc mn) (trunc mx)"
    using sy s d0 by (simp add: create_series_def map_fst_fromkeys)
  show "\<exists>mn mx. nanmin (map (\<lambda>r. num r lo) (rows ?f)) = Finite mn
           \<and> nanmax (map (\<lambda>r. num r up) (rows ?f)) = Finite mx
           \<and> map fst (series_items s) = py_range (trunc mn) (trunc mx)"
    using mn mx keys by blast
  show "\<forall>Y. Y \<in> set (map fst (series_items s)) \<longrightarrow>
           map_of (series_items s) Y =
             Some (site_count ?f site (\<lambda>r. valid_row lo up r \<and> covers_inclusive lo up Y r))"
  proof (intro allI impI)
    fix Y assume "Y \<in> set (map fst (series_items s))"
    then have Y: "Y \<in> set (py_range (trunc mn) (trunc mx))" using keys by simp
    have z: "map_of d0 Y = Some 0" using Y d0 by (simp add: map_of_fromkeys)
    have eq: "site_count (frames st' df) site (covers_inclusive lo up Y)
        = site_count ?f site (\<lambda>r. valid_row lo up r \<and> covers_inclusive lo up Y r)"
      using rows by (simp add: site_count_def)
    have "filter (covers_inclusive lo up Y) (rows (frames st' df)) = [] \<Longrightarrow>
        site_count (frames st' df) site (covers_inclusive lo up Y) = 0"
      by (simp add: site_count_def)
    moreover have "Y \<in> fst ` set d0" using z by (rule map_of_Some_key)
    ultimately have "map_of d Y = Some (site_count (frames st' df) site (covers_inclusive lo up Y))"
      using sy z by auto
    then show "map_of (series_items s) Y =
             Some (site_count ?f site (\<lambda>r. valid_row lo up r \<and> covers_inclusive lo up Y r))"
      using s eq by (simp add: create_series_def)
  qed
  show "\<forall>r. r < fresh st \<longrightarrow> frames st' r = frames st r" using b(5) .
  show "series_name s = nm \<and> series_index_name s = idx" using s by (simp add: create_series_def)
qed


lemma year_type_count_series_Inr:
  assumes "year_type_count_series st data lo up nm idx = Inr (st', s)"
  shows "\<exists>mn mx. nanmin (map (\<lambda>r. num r lo) (rows (frames st data))) = Finite mn
           \<and> nanmax (map (\<lambda>r. num r up) (rows (frames st data))) = Finite mx
           \<and> map fst (series_items s) = py_range (trunc mn) (trunc mx)"
    and "\<forall>Y. Y \<in> set (map fst (series_items s)) \<longrightarrow>
           map_of (series_items s) Y =
             Some (int (length (filter (\<lambda>r. valid_row lo up r \<and> covers_inclusive lo up Y r)
                                  (rows (frames st data)))))"
    and "\<forall>r. r < fresh st \<longrightarrow> frames st' r = frames st r"
    and "series_name s = nm \<and> series_index_name s = idx"
proof -
  let ?f = "frames st data"
  from assms obtain d0 df d where
    bins: "bins_and_df st data lo up (0::int) = Inr (d0, st', df)"
    and loop: "type_years (frames st' df) lo up d0 (map fst d0) = Inr d"
    and s: "s = create_series d nm idx"
    unfolding year_type_count_series_bins by (auto split: sum.splits prod.splits)
  note b = bins_and_df_Inr[OF bins]
  from b(3) obtain mn mx where mn: "nanmin (map (\<lambda>r. num r lo) (rows ?f)) = Finite mn"
    and mx: "nanmax (map (\<lambda>r. num r up) (rows ?f)) = Finite mx"
    and d0: "d0 = fromkeys (py_range (trunc mn) (trunc mx)) 0" by blast
  have rows: "rows (frames st' df) = filter (valid_row lo up) (rows ?f)" using b(4) by simp
  have "set (map fst d0) \<subseteq> fst ` set d0" by simp
  note ty = type_years_Inr[OF loop this]
  have keys: "map fst (series_items s) = py_range (trunc mn) (trunc mx)"
    using ty s d0 by (simp add: create_series_def map_fst_fromkeys)
  show "\<exists>mn mx. nanmin (map (\<lambda>r. num r lo) (rows ?f)) = Finite mn
           \<and> nanmax (map (\<lambda>r. num r up) (rows ?f)) = Finite mx
           \<and> map fst (series_items s) = py_range (trunc mn) (trunc mx)"
    using mn mx keys by blast
  show "\<forall>Y. Y \<in> set (map fst (series_items s)) \<longrightarrow>
           map_of (series_items s) Y =
             Some (int (length (filter (\<lambda>r. valid_row lo up r \<and> covers_inclusive lo up Y r) (rows ?f))))"
  proof (intro allI impI)
    fix Y assume "Y \<in> set (map fst (series_items s))"
    then have Y: "Y \<in> set (map fst d0)" using keys d0 by (simp add: map_fst_fromkeys)
    then have "map_of d Y = Some (int (length (filter (covers_inclusive lo up Y)
        (filter (valid_row lo up) (rows ?f)))))"
      using ty rows by simp
    then show "map_of (series_items s) Y =
             Some (int (length (filter (\<lambda>r. valid_row lo up r \<and> covers_inclusive lo up Y r) (rows ?f))))"
      using s by (simp add: create_series_def)
  qed
  show "\<forall>r. r < fresh st \<longrightarrow> frames st' r = frames st r" using b(5) .
  show "series_name s = nm \<and> series_index_name s = idx" using s by (simp add: create_series_def)
qed

lemma year_type_count_series_ok:
  assumes ok: "date_columns_ok (frames st data) lo up"
  shows "\<exists>st' s. year_type_count_series st data lo up nm idx = Inr (st', s)"
proof -
  let ?f = "frames st data"
  from bins_and_df_ok[OF ok, where z = "0::int"] obtain d0 st2 df where
    bins: "bins_and_df st data lo up (0::int) = Inr (d0, st2, df)" by blast
  note b = bins_and_df_Inr[OF bins]
  let ?df = "frames st2 df"
  have rows: "rows ?df = filter (valid_row lo up) (rows ?f)" using b(4) by simp
  have dt: "dtypes ?df = dtypes ?f" using b(4) by simp
  have fin: "\<forall>r\<in>set (rows ?df). is_finite (num r lo) \<and> is_finite (num r up)"
    using valid_rows_finite[OF ok] rows by simp
  have "\<exists>d'. type_years ?df lo up d0 (map fst d0) = Inr d'"
    using b(1,2) dt fin by (intro type_years_ok) auto
  then show ?thesis using bins by (auto simp: year_type_count_series_bins)
qed

subsection \<open>The span of the index\<close>







subsection \<open>Rows without a date\<close>



subsection \<open>The derived-column calculator\<close>

lemma degenerate_not_finite: "feq u l \<Longrightarrow> \<not> is_finite (fdiv q (fsub u l))"
  by (cases u; cases l; cases q) (auto simp: feq_def fsub_def)

lemma map2_columns:
  "map2 f (map g rs) (map2 h (map u rs) (map l rs)) = map (\<lambda>r. f (g r) (h (u r) (l r))) rs"
  by (induction rs) auto

lemma length_cells: "length (cells (FloatCol xs)) = length xs" "length (cells (ObjCol ys)) = length ys"
  by simp_all

lemma getitem_length: "getitem f c = Inr col \<Longrightarrow> length (cells col) = length (rows f)"
  by (auto simp: getitem_def split: option.splits dtype.splits)

lemma series_sub_length:
  "series_sub a b = Inr c \<Longrightarrow> length (cells a) = n \<Longrightarrow> length (cells b) = n \<Longrightarrow> length (cells c) = n"
  by (cases a; cases b) (auto split: if_splits)

lemma series_div_length:
  "series_div a b = Inr c \<Longrightarrow> length (cells a) = n \<Longrightarrow> length (cells b) = n \<Longrightarrow> length (cells c) = n"
  by (cases a; cases b) (auto split: if_splits)

lemma dens_per_year_Inr:
  assumes "dens_per_year st data q lo up out = Inr (st', r)"
  shows "r = data \<and> (\<exists>s. length (cells s) = length (rows (frames st data))
           \<and> st' = st\<lparr>frames := (frames st)(data := setitem (frames st data) out s)\<rparr>)"
proof -
  let ?f = "frames st data"
  note defs = dens_per_year_def Let_def
  obtain qc where qc: "getitem ?f q = Inr qc"
    using assms by (cases "getitem ?f q") (simp_all add: defs)
  obtain uc where uc: "getitem ?f up = Inr uc"
    using assms qc by (cases "getitem ?f up") (simp_all add: defs)
  obtain lc where lc: "getitem ?f lo = Inr lc"
    using assms qc uc by (cases "getitem ?f lo") (simp_all add: defs)
  obtain d where d: "series_sub uc lc = Inr d"
    using assms qc uc lc by (cases "series_sub uc lc") (simp_all add: defs)
  obtain s where s: "series_div qc d = Inr s"
    using assms qc uc lc d by (cases "series_div qc d") (simp_all add: defs)
  have res: "st' = st\<lparr>frames := (frames st)(data := setitem ?f out s)\<rparr>" "r = data"
    using assms qc uc lc d s by (auto simp: defs)
  have "length (cells d) = length (rows ?f)"
    using series_sub_length[OF d] getitem_length[OF uc] getitem_length[OF lc] by simp
  then have "length (cells s) = length (rows ?f)"
    using series_div_length[OF s] getitem_length[OF qc] by simp
  then show ?thesis using res by blast
qed

lemma dens_per_year_float:
  assumes "map_of (dtypes (frames st data)) q = Some Float64"
    and "map_of (dtypes (frames st data)) lo = Some Float64"
    and "map_of (dtypes (frames st data)) up = Some Float64"
  shows "dens_per_year st data q lo up out =
           Inr (st\<lparr>frames := (frames st)(data := setitem (frames st data) out
                  (FloatCol (map (\<lambda>r. fdiv (num r q) (fsub (num r up) (num r lo)))
                     (rows (frames st data)))))\<rparr>, data)"
  using assms by (simp add: dens_per_year_def Let_def getitem_float map2_columns)

lemma set_cell_other:
  "c \<noteq> out \<Longrightarrow> num (set_cell out r v) c = num r c \<and> obj (set_cell out r v) c = obj r c"
  by (cases v) auto

lemma map2_set_cell_other:
  assumes "c \<noteq> out" "length vs = length rs"
  shows "map (\<lambda>r. num r c) (map2 (set_cell out) rs vs) = map (\<lambda>r. num r c) rs
       \<and> map (\<lambda>r. obj r c) (map2 (set_cell out) rs vs) = map (\<lambda>r. obj r c) rs"
  using assms(2)
proof (induction rs arbitrary: vs)
  case Nil
  then show ?case by simp
next
  case (Cons r rs)
  then obtain v vs' where "vs = v # vs'" by (cases vs) auto
  with Cons assms(1) show ?case by (simp add: set_cell_other)
qed

lemma setitem_other:
  assumes "c \<noteq> out" "length (cells s) = length (rows f)"
  shows "getitem (setitem f out s) c = getitem f c"
  using map2_set_cell_other[OF assms]
  by (simp add: getitem_def setitem_def update_conv' assms(1) split: option.splits dtype.splits)

lemma setitem_length:
  "length (cells s) = length (rows f) \<Longrightarrow> length (rows (setitem f out s)) = length (rows f)"
  by (simp add: setitem_def)

lemma setitem_columns:
  "map fst (dtypes (setitem f out s)) =
     (if out \<in> set (map fst (dtypes f)) then map fst (dtypes f) else map fst (dtypes f) @ [out])"
  by (simp add: setitem_def update_keys)

lemma setitem_float_column:
  assumes "length xs = length (rows f)"
  shows "getitem (setitem f out (FloatCol xs)) out = Inr (FloatCol xs)"
proof -
  have "map (\<lambda>r. num r out) (map2 (set_cell out) rs (map Float ys)) = ys" if "length ys = length rs" for rs ys
    using that
  proof (induction rs arbitrary: ys)
    case Nil
    then show ?case by simp
  next
    case (Cons r rs)
    then obtain y ys' where "ys = y # ys'" by (cases ys) auto
    with Cons show ?case by simp
  qed
  with assms show ?thesis by (simp add: getitem_def setitem_def update_conv')
qed

lemma series_sub_not_key: "series_sub a b \<noteq> Inl (KeyError k)"
  by (cases a; cases b) auto

lemma series_div_not_key: "series_div a b \<noteq> Inl (KeyError k)"
  by (cases a; cases b) auto

lemma getitem_present: "map_of (dtypes f) c \<noteq> None \<Longrightarrow> \<exists>col. getitem f c = Inr col"
  by (auto simp: getitem_def split: option.splits dtype.splits)

lemma getitem_absent: "map_of (dtypes f) c = None \<Longrightarrow> getitem f c = Inl (KeyError (ColumnKey c))"
  by (simp add: getitem_def)

subsection \<open>No run ends on a missing year\<close>






section \<open>The claims\<close>

subsection \<open>C1: the summed-rate aggregator\<close>




subsection \<open>C2: the distinct-site-count aggregator\<close>




subsection \<open>C3: the type-count aggregator\<close>




subsection \<open>C4: the index of the series\<close>




subsection \<open>C5: a row dated from 2000 to 2005\<close>

text \<open>
  Claim C5. In \<open>boundary_table\<close> the row dated from 2000 to 2005, with rate 5 and site A,
  stands beside a row that spans 1998 to 2008; \<open>boundary_rest\<close> is the table without it.
  The summed rate is higher by 5 in the years 2000 to 2004 and in no other year; the
  site count and the type count are higher by 1 in the years 2000 to 2005 and in no
  other year.
\<close>

theorem boundary_row_years:
  "series_of (year_freq_series (store_of boundary_table) 0 ''lower_date'' ''upper_date''
       ''density_per_year'' ''Frequency'' ''Year'')
     = Inr \<lparr>series_items =
              [(1998, Finite 1), (1999, Finite 1), (2000, Finite 6), (2001, Finite 6),
               (2002, Finite 6), (2003, Finite 6), (2004, Finite 6), (2005, Finite 1),
               (2006, Finite 1), (2007, Finite 1)],
            series_name = ''Frequency'', series_index_name = ''Year''\<rparr>
   \<and> series_of (year_freq_series (store_of boundary_rest) 0 ''lower_date'' ''upper_date''
       ''density_per_year'' ''Frequency'' ''Year'')
     = Inr \<lparr>series_items =
              [(1998, Finite 1), (1999, Finite 1), (2000, Finite 1), (2001, Finite 1),
               (2002, Finite 1), (2003, Finite 1), (2004, Finite 1), (2005, Finite 1),
               (2006, Finite 1), (2007, Finite 1)],
            series_name = ''Frequency'', series_index_name = ''Year''\<rparr>
   \<and> series_of (year_site_count_series (store_of boundary_table) 0 ''lower_date'' ''upper_date''
       ''site_list'' ''Site count'' ''Year'')
     = Inr \<lparr>series_items =
              [(1998, 1), (1999, 1), (2000, 2), (2001, 2), (2002, 2), (2003, 2), (2004, 2),
               (2005, 2), (2006, 1), (2007, 1)],
            series_name = ''Site count'', series_index_name = ''Year''\<rparr>
   \<and> series_of (year_site_count_series (store_of boundary_rest) 0 ''lower_date'' ''upper_date''
       ''site_list'' ''Site count'' ''Year'')
     = Inr \<lparr>series_items =
              [(1998, 1), (1999, 1), (2000, 1), (2001, 1), (2002, 1), (2003, 1), (2004, 1),
               (2005, 1), (2006, 1), (2007, 1)],
            series_name = ''Site count'', series_index_name = ''Year''\<rparr>
   \<and> series_of (year_type_count_series (store_of boundary_table) 0 ''lower_date'' ''upper_date''
       ''Site count'' ''Year'')
     = Inr \<lparr>series_items =
              [(1998, 1), (1999, 1), (2000, 2), (2001, 2), (2002, 2), (2003, 2), (2004, 2),
               (2005, 2), (2006, 1), (2007, 1)],
            series_name = ''Site count'', series_index_name = ''Year''\<rparr>
   \<and> series_of (year_type_count_series (store_of boundary_rest) 0 ''lower_date'' ''upper_date''
       ''Site count'' ''Year'')
     = Inr \<lparr>series_items =
              [(1998, 1), (1999, 1), (2000, 1), (2001, 1), (2002, 1), (2003, 1), (2004, 1),
               (2005, 1), (2006, 1), (2007, 1)],
            series_name = ''Site count'', series_index_name = ''Year''\<rparr>"
  by code_simp

subsection \<open>C6: rows with a null date\<close>



subsection \<open>C7: equal lower and upper date\<close>

text \<open>
  Claim C7. When the quantity column and the two date columns are float columns and a
  row of the table has \<open>upper_date == lower_date\<close>, \<open>dens_per_year\<close> does not raise: it
  returns the table it was given, with the same number of rows, and the cell of that row
  in the output column is the quotient as it was computed, which is an infinity or NaN.
\<close>

theorem dens_per_year_degenerate:
  assumes "map_of (dtypes (frames st data)) type_dens = Some Float64"
    and "map_of (dtypes (frames st data)) lo = Some Float64"
    and "map_of (dtypes (frames st data)) up = Some Float64"
    and "i < length (rows (frames st data))"
    and "feq (num (rows (frames st data) ! i) up) (num (rows (frames st data) ! i) lo)"
  shows "\<exists>st' xs. dens_per_year st data type_dens lo up out = Inr (st', data)
           \<and> length (rows (frames st' data)) = length (rows (frames st data))
           \<and> getitem (frames st' data) out = Inr (FloatCol xs)
           \<and> xs ! i = fdiv (num (rows (frames st data) ! i) type_dens)
                        (fsub (num (rows (frames st data) ! i) up) (num (rows (frames st data) ! i) lo))
           \<and> \<not> is_finite (xs ! i)"
proof -
  let ?f = "frames st data"
  let ?xs = "map (\<lambda>r. fdiv (num r type_dens) (fsub (num r up) (num r lo))) (rows ?f)"
  let ?st' = "st\<lparr>frames := (frames st)(data := setitem ?f out (FloatCol ?xs))\<rparr>"
  have run: "dens_per_year st data type_dens lo up out = Inr (?st', data)"
    using dens_per_year_float[OF assms(1-3)] .
  have len: "length (rows (frames ?st' data)) = length (rows ?f)"
    by (simp add: setitem_length)
  have col: "getitem (frames ?st' data) out = Inr (FloatCol ?xs)"
    by (simp add: setitem_float_column)
  have v: "?xs ! i = fdiv (num (rows ?f ! i) type_dens) (fsub (num (rows ?f ! i) up) (num (rows ?f ! i) lo))"
    using assms(4) by simp
  have "\<not> is_finite (?xs ! i)" unfolding v using assms(5) by (rule degenerate_not_finite)
  with run len col v show ?thesis by blast
qed

text \<open>
  On \<open>degenerate_table\<close>: the first row, dated from 100 to 100, gets \<open>4 / 0\<close>, an
  infinity; the second row gets 2; both rows are kept.
\<close>

theorem dens_per_year_degenerate_witness:
  "map_of (dtypes degenerate_table) ''type_density'' = Some Float64
   \<and> feq (num (rows degenerate_table ! 0) ''upper_date'') (num (rows degenerate_table ! 0) ''lower_date'')
   \<and> (\<exists>st'. dens_per_year (store_of degenerate_table) 0 ''type_density'' ''lower_date'' ''upper_date''
               ''density_per_year'' = Inr (st', 0)
        \<and> length (rows (frames st' 0)) = 2
        \<and> getitem (frames st' 0) ''density_per_year'' = Inr (FloatCol [PosInf, Finite 2]))"
proof -
  let ?run = "dens_per_year (store_of degenerate_table) 0 ''type_density'' ''lower_date''
                ''upper_date'' ''density_per_year''"
  have f: "frames (store_of degenerate_table) 0 = degenerate_table" by (simp add: store_of_def)
  have q: "map_of (dtypes degenerate_table) ''type_density'' = Some Float64" by code_simp
  have l: "map_of (dtypes degenerate_table) ''lower_date'' = Some Float64" by code_simp
  have u: "map_of (dtypes degenerate_table) ''upper_date'' = Some Float64" by code_simp
  have i: "0 < length (rows degenerate_table)" by code_simp
  have e: "feq (num (rows degenerate_table ! 0) ''upper_date'')
               (num (rows degenerate_table ! 0) ''lower_date'')" by code_simp
  from dens_per_year_degenerate[of "store_of degenerate_table" 0 "''type_density''" "''lower_date''"
      "''upper_date''" 0 "''density_per_year''", unfolded f, OF q l u i e]
  obtain st' xs where run: "?run = Inr (st', 0)"
    and len: "length (rows (frames st' 0)) = length (rows degenerate_table)"
    and col: "getitem (frames st' 0) ''density_per_year'' = Inr (FloatCol xs)" by blast
  have "column_after ?run ''density_per_year'' = Inr (FloatCol [PosInf, Finite 2])" by code_simp
  with run col have "xs = [PosInf, Finite 2]" by (simp add: column_after_def)
  moreover have "length (rows degenerate_table) = 2" by code_simp
  ultimately show ?thesis using q e run len col by simp
qed

subsection \<open>C8: a missing column\<close>

text \<open>
  The claim speaks of every column-name argument. The output column is one of them, and
  it is absent from the table in the ordinary call: \<open>degenerate_table\<close> has no column
  \<open>density_per_year\<close>, and \<open>dens_per_year\<close> returns the table with that column added.
\<close>

theorem dens_per_year_output_column_counterexample:
  "map_of (dtypes degenerate_table) ''density_per_year'' = None
   \<and> column_after (dens_per_year (store_of degenerate_table) 0 ''type_density'' ''lower_date''
         ''upper_date'' ''density_per_year'') ''density_per_year''
       = Inr (FloatCol [PosInf, Finite 2])
   \<and> dens_per_year (store_of degenerate_table) 0 ''type_density'' ''lower_date''
         ''upper_date'' ''density_per_year'' \<noteq> Inl (KeyError (ColumnKey ''density_per_year''))"
proof -
  let ?run = "dens_per_year (store_of degenerate_table) 0 ''type_density'' ''lower_date''
         ''upper_date'' ''density_per_year''"
  have a: "map_of (dtypes degenerate_table) ''density_per_year'' = None" by code_simp
  have b: "column_after ?run ''density_per_year'' = Inr (FloatCol [PosInf, Finite 2])"
    by code_simp
  then have "?run \<noteq> Inl (KeyError (ColumnKey ''density_per_year''))"
    by (auto simp: column_after_def)
  with a b show ?thesis by simp
qed

text \<open>
  Claim C8, for the three columns that are read. When the quantity column, the upper
  date column or the lower date column named in the call is absent from the table,
  \<open>dens_per_year\<close> returns no result: it raises KeyError (the specification's
  MissingColumnError) for the first absent one, in the order in which the expression
  reads them: quantity, upper date, lower date. When all three are there, no KeyError is
  raised, whatever the output column.
\<close>

theorem dens_per_year_missing_column:
  "(map_of (dtypes (frames st data)) type_dens = None \<longrightarrow>
      dens_per_year st data type_dens lo up out = Inl (KeyError (ColumnKey type_dens)))
   \<and> (map_of (dtypes (frames st data)) type_dens \<noteq> None
      \<and> map_of (dtypes (frames st data)) up = None \<longrightarrow>
      dens_per_year st data type_dens lo up out = Inl (KeyError (ColumnKey up)))
   \<and> (map_of (dtypes (frames st data)) type_dens \<noteq> None
      \<and> map_of (dtypes (frames st data)) up \<noteq> None
      \<and> map_of (dtypes (frames st data)) lo = None \<longrightarrow>
      dens_per_year st data type_dens lo up out = Inl (KeyError (ColumnKey lo)))
   \<and> (map_of (dtypes (frames st data)) type_dens \<noteq> None
      \<and> map_of (dtypes (frames st data)) up \<noteq> None
      \<and> map_of (dtypes (frames st data)) lo \<noteq> None \<longrightarrow>
      (\<forall>k. dens_per_year st data type_dens lo up out \<noteq> Inl (KeyError k)))"
proof (intro conjI impI allI; (elim conjE)?)
  let ?f = "frames st data"
  note defs = dens_per_year_def Let_def
  {
    assume "map_of (dtypes ?f) type_dens = None"
    then show "dens_per_year st data type_dens lo up out = Inl (KeyError (ColumnKey type_dens))"
      by (simp add: defs getitem_absent)
  }
  {
    assume "map_of (dtypes ?f) type_dens \<noteq> None" "map_of (dtypes ?f) up = None"
    then show "dens_per_year st data type_dens lo up out = Inl (KeyError (ColumnKey up))"
      using getitem_present[of ?f type_dens] by (auto simp: defs getitem_absent)
  }
  {
    assume "map_of (dtypes ?f) type_dens \<noteq> None" "map_of (dtypes ?f) up \<noteq> None"
      "map_of (dtypes ?f) lo = None"
    then show "dens_per_year st data type_dens lo up out = Inl (KeyError (ColumnKey lo))"
      using getitem_present[of ?f type_dens] getitem_present[of ?f up]
      by (auto simp: defs getitem_absent)
  }
  {
    fix k
    assume "map_of (dtypes ?f) type_dens \<noteq> None" "map_of (dtypes ?f) up \<noteq> None"
      "map_of (dtypes ?f) lo \<noteq> None"
    then obtain qc uc lc where g: "getitem ?f type_dens = Inr qc" "getitem ?f up = Inr uc"
      "getitem ?f lo = Inr lc"
      using getitem_present[of ?f type_dens] getitem_present[of ?f up] getitem_present[of ?f lo]
      by blast
    show "dens_per_year st data type_dens lo up out \<noteq> Inl (KeyError k)"
    proof (cases "series_sub uc lc")
      case (Inl e)
      then show ?thesis using g series_sub_not_key[of uc lc k] by (auto simp: defs)
    next
      case (Inr d)
      then show ?thesis using g series_div_not_key[of qc d k]
        by (cases "series_div qc d") (auto simp: defs)
    qed
  }
qed

text \<open>
  \<open>sites_table\<close> has no column \<open>type_density\<close>, \<open>pipeline_table\<close> has no column
  \<open>lower_bound\<close>: both calls raise KeyError with that name.
\<close>

theorem dens_per_year_missing_column_witness:
  "map_of (dtypes sites_table) ''type_density'' = None
   \<and> dens_per_year (store_of sites_table) 0 ''type_density'' ''lower_date'' ''upper_date''
        ''density_per_year'' = Inl (KeyError (ColumnKey ''type_density''))
   \<and> map_of (dtypes pipeline_table) ''type_density'' \<noteq> None
   \<and> map_of (dtypes pipeline_table) ''upper_date'' \<noteq> None
   \<and> map_of (dtypes pipeline_table) ''lower_bound'' = None
   \<and> dens_per_year (store_of pipeline_table) 0 ''type_density'' ''lower_bound'' ''upper_date''
        ''density_per_year'' = Inl (KeyError (ColumnKey ''lower_bound''))"
proof -
  have f: "frames (store_of sites_table) 0 = sites_table" by (simp add: store_of_def)
  have g: "frames (store_of pipeline_table) 0 = pipeline_table" by (simp add: store_of_def)
  have 1: "map_of (dtypes sites_table) ''type_density'' = None" by code_simp
  have 2: "map_of (dtypes pipeline_table) ''type_density'' \<noteq> None" by code_simp
  have 3: "map_of (dtypes pipeline_table) ''upper_date'' \<noteq> None" by code_simp
  have 4: "map_of (dtypes pipeline_table) ''lower_bound'' = None" by code_simp
  note a = dens_per_year_missing_column[of "store_of sites_table" 0 "''type_density''"
      "''lower_date''" "''upper_date''" "''density_per_year''", unfolded f]
  note b = dens_per_year_missing_column[of "store_of pipeline_table" 0 "''type_density''"
      "''lower_bound''" "''upper_date''" "''density_per_year''", unfolded g]
  from a 1 have "dens_per_year (store_of sites_table) 0 ''type_density'' ''lower_date'' ''upper_date''
        ''density_per_year'' = Inl (KeyError (ColumnKey ''type_density''))" by blast
  moreover from b 2 3 4 have "dens_per_year (store_of pipeline_table) 0 ''type_density''
        ''lower_bound'' ''upper_date'' ''density_per_year'' = Inl (KeyError (ColumnKey ''lower_bound''))"
    by blast
  ultimately show ?thesis using 1 2 3 4 by blast
qed

subsection \<open>C9: what is changed and what is not\<close>

text \<open>
  Claim C9. For a table of the store: when one of the three aggregators returns, the
  table is as it was, columns, rows and order. When \<open>dens_per_year\<close> returns, it
  returns the reference it was given; in the table behind it every column other than
  the output column reads as before, the number of rows is the same, the columns stand
  in the same order with the output column in its old place or appended last, the
  output column holds the quotients (for float columns), and every other table of the
  store is as it was.
\<close>

theorem frame_effects:
  assumes "data < fresh st"
  shows
  "(\<forall>st' s. year_freq_series st data lo up dens nm idx = Inr (st', s) \<longrightarrow>
      frames st' data = frames st data)
   \<and> (\<forall>st' s. year_site_count_series st data lo up site nm idx = Inr (st', s) \<longrightarrow>
      frames st' data = frames st data)
   \<and> (\<forall>st' s. year_type_count_series st data lo up nm idx = Inr (st', s) \<longrightarrow>
      frames st' data = frames st data)
   \<and> (\<forall>st' r. dens_per_year st data type_dens lo up out = Inr (st', r) \<longrightarrow>
      r = data
      \<and> (\<forall>c. c \<noteq> out \<longrightarrow> getitem (frames st' data) c = getitem (frames st data) c)
      \<and> length (rows (frames st' data)) = length (rows (frames st data))
      \<and> map fst (dtypes (frames st' data))
          = (if out \<in> set (map fst (dtypes (frames st data)))
             then map fst (dtypes (frames st data))
             else map fst (dtypes (frames st data)) @ [out])
      \<and> (map_of (dtypes (frames st data)) type_dens = Some Float64
           \<and> map_of (dtypes (frames st data)) lo = Some Float64
           \<and> map_of (dtypes (frames st data)) up = Some Float64 \<longrightarrow>
           getitem (frames st' data) out
             = Inr (FloatCol (map (\<lambda>r. fdiv (num r type_dens) (fsub (num r up) (num r lo)))
                                 (rows (frames st data)))))
      \<and> (\<forall>d. d \<noteq> data \<longrightarrow> frames st' d = frames st d)
      \<and> fresh st' = fresh st)"
proof (intro conjI allI impI)
  fix st' s
  assume "year_freq_series st data lo up dens nm idx = Inr (st', s)"
  from year_freq_series_Inr(3)[OF this] assms show "frames st' data = frames st data" by blast
next
  fix st' s
  assume "year_site_count_series st data lo up site nm idx = Inr (st', s)"
  from year_site_count_series_Inr(3)[OF this] assms show "frames st' data = frames st data" by blast
next
  fix st' s
  assume "year_type_count_series st data lo up nm idx = Inr (st', s)"
  from year_type_count_series_Inr(3)[OF this] assms show "frames st' data = frames st data" by blast
next
  fix st' r
  assume run: "dens_per_year st data type_dens lo up out = Inr (st', r)"
  let ?f = "frames st data"
  from dens_per_year_Inr[OF run] obtain s where r: "r = data"
    and len: "length (cells s) = length (rows ?f)"
    and st': "st' = st\<lparr>frames := (frames st)(data := setitem ?f out s)\<rparr>" by blast
  have fr: "frames st' data = setitem ?f out s" using st' by simp
  show "r = data" by (rule r)
  show "length (rows (frames st' data)) = length (rows ?f)"
    unfolding fr using len by (rule setitem_length)
  show "map fst (dtypes (frames st' data))
          = (if out \<in> set (map fst (dtypes ?f)) then map fst (dtypes ?f)
             else map fst (dtypes ?f) @ [out])"
    unfolding fr by (rule setitem_columns)
  show "fresh st' = fresh st" using st' by simp
  {
    fix c :: string assume "c \<noteq> out"
    then show "getitem (frames st' data) c = getitem ?f c"
      unfolding fr using len by (rule setitem_other)
  }
  {
    fix d assume "d \<noteq> data"
    then show "frames st' d = frames st d" using st' by simp
  }
  {
    assume "map_of (dtypes ?f) type_dens = Some Float64
           \<and> map_of (dtypes ?f) lo = Some Float64 \<and> map_of (dtypes ?f) up = Some Float64"
    then have "dens_per_year st data type_dens lo up out =
           Inr (st\<lparr>frames := (frames st)(data := setitem ?f out
                  (FloatCol (map (\<lambda>r. fdiv (num r type_dens) (fsub (num r up) (num r lo)))
                     (rows ?f))))\<rparr>, data)"
      using dens_per_year_float by blast
    with run have "frames st' data = setitem ?f out
                  (FloatCol (map (\<lambda>r. fdiv (num r type_dens) (fsub (num r up) (num r lo))) (rows ?f)))"
      by auto
    then show "getitem (frames st' data) out
             = Inr (FloatCol (map (\<lambda>r. fdiv (num r type_dens) (fsub (num r up) (num r lo))) (rows ?f)))"
      by (simp add: setitem_float_column)
  }
qed

text \<open>
  On \<open>pipeline_table\<close>: the type count leaves the table as it was, though the store has
  grown by the two tables of \<open>dropna\<close>; \<open>dens_per_year\<close> appends \<open>density_per_year\<close>
  with 10 / 5 and 4 / 2 and leaves the other columns.
\<close>

theorem frame_effects_witness:
  "(0::nat) < fresh (store_of pipeline_table)
   \<and> (\<exists>st' s. year_type_count_series (store_of pipeline_table) 0 ''lower_date'' ''upper_date''
                 ''Site count'' ''Year'' = Inr (st', s)
        \<and> frames st' 0 = pipeline_table \<and> fresh st' = 3)
   \<and> (\<exists>st'. dens_per_year (store_of pipeline_table) 0 ''type_density'' ''lower_date''
                ''upper_date'' ''density_per_year'' = Inr (st', 0)
        \<and> getitem (frames st' 0) ''type_density'' = Inr (FloatCol [Finite 10, Finite 4])
        \<and> getitem (frames st' 0) ''site_list'' = Inr (ObjCol [[''A'', ''B''], [''B'']])
        \<and> getitem (frames st' 0) ''density_per_year'' = Inr (FloatCol [Finite 2, Finite 2])
        \<and> length (rows (frames st' 0)) = 2
        \<and> map fst (dtypes (frames st' 0))
            = [''type_density'', ''lower_date'', ''upper_date'', ''site_list'', ''density_per_year''])"
proof -
  let ?st = "store_of pipeline_table"
  let ?agg = "year_type_count_series ?st 0 ''lower_date'' ''upper_date'' ''Site count'' ''Year''"
  let ?run = "dens_per_year ?st 0 ''type_density'' ''lower_date'' ''upper_date'' ''density_per_year''"
  have f: "frames ?st 0 = pipeline_table" by (simp add: store_of_def)
  have fr: "(0::nat) < fresh ?st" by (simp add: store_of_def)
  note inst = frame_effects[OF fr, unfolded f, of "''lower_date''" "''upper_date''" _
      "''Site count''" "''Year''" _ "''type_density''" "''density_per_year''"]
  have ok: "date_columns_ok (frames ?st 0) ''lower_date'' ''upper_date''" unfolding f by code_simp
  from year_type_count_series_ok[OF ok] obtain st1 s1 where agg: "?agg = Inr (st1, s1)" by blast
  with inst have a1: "frames st1 0 = pipeline_table" by blast
  have "map_sum id (\<lambda>p. fresh (fst p)) ?agg = Inr 3" by code_simp
  with agg have a2: "fresh st1 = 3" by simp
  have q: "map_of (dtypes pipeline_table) ''type_density'' = Some Float64"
    and l: "map_of (dtypes pipeline_table) ''lower_date'' = Some Float64"
    and u: "map_of (dtypes pipeline_table) ''upper_date'' = Some Float64" by code_simp+
  from dens_per_year_float[of ?st 0 "''type_density''" "''lower_date''" "''upper_date''"
      "''density_per_year''", unfolded f, OF q l u]
  obtain st2 where run: "?run = Inr (st2, 0)" by blast
  from inst run q l u have
    b1: "\<forall>c. c \<noteq> ''density_per_year'' \<longrightarrow> getitem (frames st2 0) c = getitem pipeline_table c"
    and b2: "length (rows (frames st2 0)) = length (rows pipeline_table)"
    and b3: "map fst (dtypes (frames st2 0))
          = (if ''density_per_year'' \<in> set (map fst (dtypes pipeline_table))
             then map fst (dtypes pipeline_table)
             else map fst (dtypes pipeline_table) @ [''density_per_year''])"
    and b4: "getitem (frames st2 0) ''density_per_year''
             = Inr (FloatCol (map (\<lambda>r. fdiv (num r ''type_density'')
                   (fsub (num r ''upper_date'') (num r ''lower_date''))) (rows pipeline_table)))"
    by blast+
  have c1: "getitem (frames st2 0) ''type_density'' = Inr (FloatCol [Finite 10, Finite 4])"
  proof -
    have "getitem (frames st2 0) ''type_density'' = getitem pipeline_table ''type_density''"
      using b1 by simp
    also have "\<dots> = Inr (FloatCol [Finite 10, Finite 4])" by code_simp
    finally show ?thesis .
  qed
  have c2: "getitem (frames st2 0) ''site_list'' = Inr (ObjCol [[''A'', ''B''], [''B'']])"
  proof -
    have "getitem (frames st2 0) ''site_list'' = getitem pipeline_table ''site_list''"
      using b1 by simp
    also have "\<dots> = Inr (ObjCol [[''A'', ''B''], [''B'']])" by code_simp
    finally show ?thesis .
  qed
  have c3: "getitem (frames st2 0) ''density_per_year'' = Inr (FloatCol [Finite 2, Finite 2])"
  proof -
    have "map (\<lambda>r. fdiv (num r ''type_density'')
                   (fsub (num r ''upper_date'') (num r ''lower_date''))) (rows pipeline_table)
          = [Finite 2, Finite 2]" by code_simp
    with b4 show ?thesis by simp
  qed
  have c4: "length (rows (frames st2 0)) = 2"
  proof -
    have "length (rows pipeline_table) = 2" by code_simp
    with b2 show ?thesis by simp
  qed
  have c5: "map fst (dtypes (frames st2 0))
            = [''type_density'', ''lower_date'', ''upper_date'', ''site_list'', ''density_per_year'']"
  proof -
    have "(if ''density_per_year'' \<in> set (map fst (dtypes pipeline_table))
             then map fst (dtypes pipeline_table)
             else map fst (dtypes pipeline_table) @ [''density_per_year''])
       = [''type_density'', ''lower_date'', ''upper_date'', ''site_list'', ''density_per_year'']"
      by code_simp
    with b3 show ?thesis by simp
  qed
  show ?thesis using fr agg a1 a2 run c1 c2 c3 c4 c5 by simp
qed

subsection \<open>C10: every year a row reaches is a bin\<close>



end
